theory Spec2Isabelle
  imports Complex_Main
begin

section \<open>Numbers and bars\<close>

text \<open>
  The indicator code computes on JavaScript numbers. They are modelled as \<open>real\<close>:
  exact arithmetic on finite values. Where the source divides by a divisor that can be
  zero (the row count of the volume profile) the outcome is written out as a case of
  the model; \<open>NaN\<close> and infinite inputs are outside the model. Timestamps are Unix
  seconds, modelled as \<open>int\<close>.

  A bar is the object \<open>{time, open, high, low, close, volume}\<close>. The fields carry
  the prefix \<open>bar_\<close> because \<open>open\<close> is a constant of the library.
\<close>

record bar =
  bar_time :: int
  bar_open :: real
  bar_high :: real
  bar_low :: real
  bar_close :: real
  bar_volume :: real

section \<open>Cumulative volume delta\<close>

subsection \<open>calculateDeltaForBar\<close>

text \<open>
  \<open>previousBar\<close> may be \<open>null\<close> and \<open>previousDelta\<close> may be \<open>undefined\<close>;
  both are options. The three \<open>return\<close>s of the fall-through after the doji test
  are the innermost \<open>case\<close>.
\<close>

definition inheritDelta :: "real \<Rightarrow> real option \<Rightarrow> real" where
  "inheritDelta volume previousDelta =
     (case previousDelta of
        None \<Rightarrow> 0
      | Some d \<Rightarrow> if d \<noteq> 0 then (if d > 0 then volume else - volume) else 0)"

definition calculateDeltaForBar :: "bar \<Rightarrow> bar option \<Rightarrow> real option \<Rightarrow> real" where
  "calculateDeltaForBar b previousBar previousDelta =
     (if bar_close b > bar_open b then bar_volume b
      else if bar_close b < bar_open b then - bar_volume b
      else (case previousBar of
              None \<Rightarrow> inheritDelta (bar_volume b) previousDelta
            | Some pb \<Rightarrow>
                if bar_close b > bar_close pb then bar_volume b
                else if bar_close b < bar_close pb then - bar_volume b
                else inheritDelta (bar_volume b) previousDelta))"

subsection \<open>calculate1MinuteDeltas\<close>

record delta_entry =
  de_time :: int
  de_delta :: real
  cumulativeDelta :: real

text \<open>The \<open>for\<close> loop, with its three mutable variables as arguments.\<close>

fun deltas_loop :: "real \<Rightarrow> bar option \<Rightarrow> real \<Rightarrow> bar list \<Rightarrow> delta_entry list" where
  "deltas_loop cum previousBar previousDelta [] = []"
| "deltas_loop cum previousBar previousDelta (b # bs) =
     (let delta = calculateDeltaForBar b previousBar (Some previousDelta);
          cum' = cum + delta
      in \<lparr>de_time = bar_time b, de_delta = delta, cumulativeDelta = cum'\<rparr>
           # deltas_loop cum' (Some b) delta bs)"

definition calculate1MinuteDeltas :: "bar list \<Rightarrow> delta_entry list" where
  "calculate1MinuteDeltas oneMinCandles = deltas_loop 0 None 0 oneMinCandles"

subsection \<open>calculateCVDForCandle\<close>

record cvd_ohlc =
  openCVD :: real
  highCVD :: real
  lowCVD :: real
  closeCVD :: real

text \<open>The loop over the deltas: running total, running maximum, running minimum.\<close>

fun cvd_fold :: "real \<Rightarrow> real \<Rightarrow> real \<Rightarrow> delta_entry list \<Rightarrow> real \<times> real \<times> real" where
  "cvd_fold runningCVD hi lo [] = (runningCVD, hi, lo)"
| "cvd_fold runningCVD hi lo (d # ds) =
     (let r = runningCVD + de_delta d
      in cvd_fold r (max hi r) (min lo r) ds)"

definition flatCVD :: "real \<Rightarrow> cvd_ohlc" where
  "flatCVD previousCloseCVD =
     \<lparr>openCVD = previousCloseCVD, highCVD = previousCloseCVD,
      lowCVD = previousCloseCVD, closeCVD = previousCloseCVD\<rparr>"

text \<open>
  The target candle is an argument of the source function that its body never reads.
  \<open>None\<close> is a missing array.
\<close>

definition calculateCVDForCandle :: "bar \<Rightarrow> bar list option \<Rightarrow> real \<Rightarrow> cvd_ohlc" where
  "calculateCVDForCandle targetCandle oneMinCandles previousCloseCVD =
     (case oneMinCandles of
        None \<Rightarrow> flatCVD previousCloseCVD
      | Some [] \<Rightarrow> flatCVD previousCloseCVD
      | Some ms \<Rightarrow>
          (case cvd_fold previousCloseCVD previousCloseCVD previousCloseCVD
                  (calculate1MinuteDeltas ms) of
             (runningCVD, hi, lo) \<Rightarrow>
               \<lparr>openCVD = previousCloseCVD, highCVD = hi, lowCVD = lo,
                closeCVD = runningCVD\<rparr>))"

subsection \<open>calculateCVD\<close>

text \<open>
  \<open>getAnchorPeriodStart\<close> reads the platform's calendar (\<open>Intl.DateTimeFormat\<close>,
  \<open>Date\<close>) and \<open>parseInt\<close> is the language's own; both are parameters of the model.
  \<open>parseInt\<close> returns \<open>None\<close> for \<open>NaN\<close>; every comparison with \<open>NaN\<close> is
  false, so then no 1-minute bar is in the window.
\<close>

record cvd_options =
  anchorPeriod :: "string option"
  chartTimeframe :: "string option"

record underlying =
  u_open :: real
  u_high :: real
  u_low :: real
  u_close :: real
  u_volume :: real

record cvd_candle =
  cvd_time :: int
  cvd_open :: real
  cvd_high :: real
  cvd_low :: real
  cvd_close :: real
  underlyingCandle :: underlying

definition anchorPeriodOf :: "cvd_options \<Rightarrow> string" where
  "anchorPeriodOf options = (case anchorPeriod options of None \<Rightarrow> ''1D'' | Some a \<Rightarrow> a)"

definition timeframeSeconds :: "(string \<Rightarrow> int option) \<Rightarrow> cvd_options \<Rightarrow> int option" where
  "timeframeSeconds parseInt options =
     map_option (\<lambda>resolution. resolution * 60)
       (parseInt (case chartTimeframe options of
                    None \<Rightarrow> ''5''
                  | Some s \<Rightarrow> if s = [] then ''5'' else s))"

definition relevantOneMinCandles ::
  "(string \<Rightarrow> int option) \<Rightarrow> cvd_options \<Rightarrow> bar list \<Rightarrow> int \<Rightarrow> bar list" where
  "relevantOneMinCandles parseInt options oneMinCandles candleTime =
     (case timeframeSeconds parseInt options of
        None \<Rightarrow> []
      | Some secs \<Rightarrow>
          filter (\<lambda>c. bar_time c \<ge> candleTime \<and> bar_time c < candleTime + secs)
            oneMinCandles)"

text \<open>
  The main loop. Its state is \<open>cumulativeCVD\<close> and \<open>currentAnchorStart\<close>
  (\<open>None\<close> for \<open>null\<close>).
\<close>

fun cvd_loop ::
  "(int \<Rightarrow> string \<Rightarrow> int) \<Rightarrow> (string \<Rightarrow> int option) \<Rightarrow> cvd_options \<Rightarrow> bar list
     \<Rightarrow> real \<Rightarrow> int option \<Rightarrow> bar list \<Rightarrow> cvd_candle list" where
  "cvd_loop getAnchorPeriodStart parseInt options oneMinCandles
       cumulativeCVD currentAnchorStart [] = []"
| "cvd_loop getAnchorPeriodStart parseInt options oneMinCandles
       cumulativeCVD currentAnchorStart (candle # rest) =
     (let candleTime = bar_time candle;
          anchorStart = getAnchorPeriodStart candleTime (anchorPeriodOf options);
          reset = (currentAnchorStart = None \<or> currentAnchorStart \<noteq> Some anchorStart);
          cumulativeCVD1 = (if reset then 0 else cumulativeCVD);
          cvdOHLC = calculateCVDForCandle candle
                      (Some (relevantOneMinCandles parseInt options oneMinCandles candleTime))
                      cumulativeCVD1
      in \<lparr>cvd_time = candleTime, cvd_open = openCVD cvdOHLC, cvd_high = highCVD cvdOHLC,
          cvd_low = lowCVD cvdOHLC, cvd_close = closeCVD cvdOHLC,
          underlyingCandle = \<lparr>u_open = bar_open candle, u_high = bar_high candle,
             u_low = bar_low candle, u_close = bar_close candle,
             u_volume = bar_volume candle\<rparr>\<rparr>
         # cvd_loop getAnchorPeriodStart parseInt options oneMinCandles
             (closeCVD cvdOHLC) (Some anchorStart) rest)"

definition calculateCVD ::
  "(int \<Rightarrow> string \<Rightarrow> int) \<Rightarrow> (string \<Rightarrow> int option) \<Rightarrow> bar list \<Rightarrow> bar list
     \<Rightarrow> cvd_options \<Rightarrow> cvd_candle list" where
  "calculateCVD getAnchorPeriodStart parseInt candles oneMinCandles options =
     cvd_loop getAnchorPeriodStart parseInt options oneMinCandles 0 None candles"

section \<open>Relative strength index\<close>

record point =
  pt_time :: int
  pt_value :: real

text \<open>\<open>data[i]\<close>: \<open>None\<close> is \<open>undefined\<close>, read past the end of the array.\<close>

definition at_index :: "'a list \<Rightarrow> nat \<Rightarrow> 'a option" where
  "at_index xs i = (if i < length xs then Some (xs ! i) else None)"

text \<open>The first loop: one price change for each bar after the first.\<close>

fun priceChanges :: "bar list \<Rightarrow> real list" where
  "priceChanges (a # b # rest) = (bar_close b - bar_close a) # priceChanges (b # rest)"
| "priceChanges _ = []"

definition rsiGains :: "bar list \<Rightarrow> real list" where
  "rsiGains data = map (\<lambda>change. if change > 0 then change else 0) (priceChanges data)"

definition rsiLosses :: "bar list \<Rightarrow> real list" where
  "rsiLosses data = map (\<lambda>change. if change < 0 then \<bar>change\<bar> else 0) (priceChanges data)"

text \<open>
  The source computes the index from the two averages by the same expression in two
  places, before the loop and inside it.
\<close>

definition rsiFromAverages :: "real \<Rightarrow> real \<Rightarrow> real" where
  "rsiFromAverages avgGain avgLoss =
     (if avgLoss = 0 then (if avgGain = 0 then 50 else 100)
      else 100 - 100 / (1 + avgGain / avgLoss))"

definition emitPoint :: "bar list \<Rightarrow> nat \<Rightarrow> real \<Rightarrow> point list" where
  "emitPoint data i rsi =
     (case at_index data i of
        None \<Rightarrow> []
      | Some d \<Rightarrow> [\<lparr>pt_time = bar_time d, pt_value = rsi\<rparr>])"

text \<open>
  The second loop, \<open>for (i = period; i < gains.length; i++)\<close>, with the two smoothed
  averages as arguments. Only here is the value clamped to \<open>[0, 100]\<close>. The period
  is a positive integer; the code divides by it.
\<close>

function rsi_loop :: "bar list \<Rightarrow> nat \<Rightarrow> real \<Rightarrow> real \<Rightarrow> nat \<Rightarrow> point list" where
  "rsi_loop data period avgGain avgLoss i =
     (if i < length (rsiGains data) then
        (let avgGain' = (avgGain * (real period - 1) + rsiGains data ! i) / real period;
             avgLoss' = (avgLoss * (real period - 1) + rsiLosses data ! i) / real period;
             rsi = max 0 (min 100 (rsiFromAverages avgGain' avgLoss'))
         in emitPoint data (i + 1) rsi @ rsi_loop data period avgGain' avgLoss' (i + 1))
      else [])"
  by pat_completeness auto
termination
  by (relation "measure (\<lambda>(data, period, avgGain, avgLoss, i). length (rsiGains data) - i)") auto

declare rsi_loop.simps [simp del]

definition calculateRSI :: "bar list \<Rightarrow> nat \<Rightarrow> point list" where
  "calculateRSI data period =
     (if length data \<le> period then []
      else
        (let avgGain = foldl (+) 0 (take period (rsiGains data)) / real period;
             avgLoss = foldl (+) 0 (take period (rsiLosses data)) / real period;
             rsi = rsiFromAverages avgGain avgLoss
         in emitPoint data period rsi @ rsi_loop data period avgGain avgLoss period))"

section \<open>Fixed range volume profile\<close>

subsection \<open>Rows, settings, errors\<close>

record ProfileRow =
  index :: nat
  priceLow :: real
  priceHigh :: real
  priceLevel :: real
  upVolume :: real
  downVolume :: real
  totalVolume :: real
  delta :: real

text \<open>
  A configuration object: \<open>None\<close> is a key the object does not have. The spread
  \<open>{...a, ...b}\<close> takes a key from \<open>b\<close> where \<open>b\<close> has it and from \<open>a\<close> otherwise.
\<close>

record frvp_settings =
  rowSize :: "real option"
  rowsLayout :: "string option"
  valueAreaVolume :: "real option"
  developingPOC :: "bool option"
  developingVA :: "bool option"

definition orElse :: "'a option \<Rightarrow> 'a option \<Rightarrow> 'a option" where
  "orElse b a = (case b of None \<Rightarrow> a | Some v \<Rightarrow> Some v)"

definition mergeSettings :: "frvp_settings \<Rightarrow> frvp_settings \<Rightarrow> frvp_settings" where
  "mergeSettings a b =
     \<lparr>rowSize = orElse (rowSize b) (rowSize a),
      rowsLayout = orElse (rowsLayout b) (rowsLayout a),
      valueAreaVolume = orElse (valueAreaVolume b) (valueAreaVolume a),
      developingPOC = orElse (developingPOC b) (developingPOC a),
      developingVA = orElse (developingVA b) (developingVA a)\<rparr>"

text \<open>
  What the code throws: \<open>new Error(message)\<close>, and the \<open>TypeError\<close> of the language
  for a property read on \<open>undefined\<close>.
\<close>

datatype js_error = Error string | TypeError string

subsection \<open>createPriceLevelRows\<close>

text \<open>
  The row count is the one number of the profile that a division by zero can reach, so
  it has the outcomes of a JavaScript division written out: a finite number, one of
  the two infinities, or \<open>NaN\<close>. A zero \<open>rowSize\<close>
  is the positive zero.
\<close>

datatype js_count = Finite real | PosInfinity | NegInfinity | NaN

definition tickRows :: "real \<Rightarrow> real \<Rightarrow> js_count" where
  \<comment> \<open>\<open>Math.ceil(priceRange / rowSize)\<close>\<close>
  "tickRows priceRange rs =
     (if rs \<noteq> 0 then Finite (of_int \<lceil>priceRange / rs\<rceil>)
      else if priceRange > 0 then PosInfinity
      else if priceRange < 0 then NegInfinity
      else NaN)"

definition percentageRows :: "real \<Rightarrow> real \<Rightarrow> js_count" where
  \<comment> \<open>\<open>rowHeight = (priceRange * rowSize) / 100; Math.ceil(priceRange / rowHeight)\<close>;
      a zero \<open>rowHeight\<close> has the sign of \<open>priceRange\<close>\<close>
  "percentageRows priceRange rs =
     (let rowHeight = (priceRange * rs) / 100
      in if rowHeight \<noteq> 0 then Finite (of_int \<lceil>priceRange / rowHeight\<rceil>)
         else if priceRange = 0 then NaN
         else PosInfinity)"

definition atLeastOne :: "js_count \<Rightarrow> js_count" where
  \<comment> \<open>\<open>Math.max(1, numRows)\<close>\<close>
  "atLeastOne n =
     (case n of
        Finite r \<Rightarrow> Finite (max 1 r)
      | PosInfinity \<Rightarrow> PosInfinity
      | NegInfinity \<Rightarrow> Finite 1
      | NaN \<Rightarrow> NaN)"

definition numRowsFor :: "real \<Rightarrow> frvp_settings \<Rightarrow> js_count" where
  "numRowsFor priceRange settings =
     (let rs = (case rowSize settings of None \<Rightarrow> 200 | Some r \<Rightarrow> r);
          layout = (case rowsLayout settings of None \<Rightarrow> ''Number'' | Some l \<Rightarrow> l)
      in atLeastOne
           (if layout = ''Number'' then Finite rs
            else if layout = ''Tick'' then tickRows priceRange rs
            else if layout = ''Percentage'' then percentageRows priceRange rs
            else Finite rs))"

definition newRow :: "real \<Rightarrow> real \<Rightarrow> real \<Rightarrow> nat \<Rightarrow> ProfileRow" where
  "newRow low high actualRowSize i =
     (let pLow = low + (real i * actualRowSize);
          pHigh = min (pLow + actualRowSize) high
      in \<lparr>index = i, priceLow = pLow, priceHigh = pHigh,
          priceLevel = (pLow + pHigh) / 2,
          upVolume = 0, downVolume = 0, totalVolume = 0, delta = 0\<rparr>)"

text \<open>The loop \<open>for (i = 0; i < numRows; i++)\<close> for a finite \<open>numRows\<close>.\<close>

function rows_loop :: "real \<Rightarrow> real \<Rightarrow> real \<Rightarrow> real \<Rightarrow> nat \<Rightarrow> ProfileRow list" where
  "rows_loop low high actualRowSize numRows i =
     (if real i < numRows
      then newRow low high actualRowSize i # rows_loop low high actualRowSize numRows (Suc i)
      else [])"
  by pat_completeness auto
termination
proof (relation "measure (\<lambda>(low, high, actualRowSize, numRows, i). nat \<lceil>numRows\<rceil> - i)")
  fix low high actualRowSize numRows :: real and i :: nat
  assume "real i < numRows"
  then have "int i < \<lceil>numRows\<rceil>"
    by (simp add: less_ceiling_iff)
  then have "i < nat \<lceil>numRows\<rceil>"
    by linarith
  then show "((low, high, actualRowSize, numRows, Suc i), (low, high, actualRowSize, numRows, i))
      \<in> measure (\<lambda>(low, high, actualRowSize, numRows, i). nat \<lceil>numRows\<rceil> - i)"
    by simp
qed simp

declare rows_loop.simps [simp del]

text \<open>
  With \<open>numRows = NaN\<close> the loop test is false at once and there are no rows. With
  \<open>numRows = Infinity\<close> the test is never false: the loop does not return, which is
  the value \<open>None\<close>.
\<close>

definition createPriceLevelRows :: "real \<Rightarrow> real \<Rightarrow> frvp_settings \<Rightarrow> ProfileRow list option" where
  "createPriceLevelRows low high settings =
     (let priceRange = high - low
      in case numRowsFor priceRange settings of
           Finite numRows \<Rightarrow> Some (rows_loop low high (priceRange / numRows) numRows 0)
         | NaN \<Rightarrow> Some []
         | NegInfinity \<Rightarrow> Some []
         | PosInfinity \<Rightarrow> None)"

subsection \<open>distributeVolume\<close>

definition rangesOverlap :: "real \<Rightarrow> real \<Rightarrow> real \<Rightarrow> real \<Rightarrow> bool" where
  "rangesOverlap low1 high1 low2 high2 \<longleftrightarrow> low1 \<le> high2 \<and> high1 \<ge> low2"

definition calculateOverlapRatio :: "real \<Rightarrow> real \<Rightarrow> real \<Rightarrow> real \<Rightarrow> real" where
  "calculateOverlapRatio low1 high1 low2 high2 =
     (let overlapLow = max low1 low2;
          overlapHigh = min high1 high2;
          overlapRange = max 0 (overlapHigh - overlapLow);
          totalRange = high1 - low1
      in if totalRange > 0 then overlapRange / totalRange else 0)"

text \<open>The body of the inner \<open>forEach\<close>: what one bar does to one row.\<close>

definition addBarToRow :: "bar \<Rightarrow> ProfileRow \<Rightarrow> ProfileRow" where
  "addBarToRow b row =
     (if rangesOverlap (bar_low b) (bar_high b) (priceLow row) (priceHigh row) then
        (let overlapRatio =
               calculateOverlapRatio (bar_low b) (bar_high b) (priceLow row) (priceHigh row);
             volumeForRow = bar_volume b * overlapRatio;
             isUpBar = (bar_close b \<ge> bar_open b);
             up = (if isUpBar then upVolume row + volumeForRow else upVolume row);
             down = (if isUpBar then downVolume row else downVolume row + volumeForRow)
         in row\<lparr>upVolume := up, downVolume := down,
                totalVolume := totalVolume row + volumeForRow,
                delta := up - down\<rparr>)
      else row)"

text \<open>The rows are mutated in place; the model returns them.\<close>

definition distributeVolume :: "bar list \<Rightarrow> ProfileRow list \<Rightarrow> ProfileRow list" where
  "distributeVolume bars rows = foldl (\<lambda>rs b. map (addBarToRow b) rs) rows bars"

subsection \<open>calculatePOC\<close>

text \<open>
  The callback of \<open>reduce\<close>, and the reduction itself: it starts from \<open>rows[0]\<close> and
  visits every row, the first one included. \<open>None\<close> is a missing array.
\<close>

definition pickMax :: "ProfileRow \<Rightarrow> ProfileRow \<Rightarrow> ProfileRow" where
  "pickMax maxRow currentRow =
     (if totalVolume currentRow > totalVolume maxRow then currentRow else maxRow)"

definition calculatePOC :: "ProfileRow list option \<Rightarrow> js_error + ProfileRow" where
  "calculatePOC rows =
     (case rows of
        None \<Rightarrow> Inl (Error ''No rows provided for POC calculation'')
      | Some [] \<Rightarrow> Inl (Error ''No rows provided for POC calculation'')
      | Some (r0 # rest) \<Rightarrow> Inr (foldl pickMax r0 (r0 # rest)))"

subsection \<open>calculateValueArea\<close>

text \<open>
  \<open>rows[i]\<close> for a cursor that may be negative, and \<open>rows.indexOf(poc)\<close>, which is
  \<open>-1\<close> when the row is not in the array. The source compares objects by identity;
  rows that carry their position in \<open>index\<close> are equal only when they are the same
  row.
\<close>

definition row_at :: "ProfileRow list \<Rightarrow> int \<Rightarrow> ProfileRow option" where
  "row_at rows i = (if 0 \<le> i \<and> i < int (length rows) then Some (rows ! nat i) else None)"

fun indexOf_from :: "'a list \<Rightarrow> 'a \<Rightarrow> int \<Rightarrow> int" where
  "indexOf_from [] x k = - 1"
| "indexOf_from (y # ys) x k = (if y = x then k else indexOf_from ys x (k + 1))"

definition indexOf :: "'a list \<Rightarrow> 'a \<Rightarrow> int" where
  "indexOf xs x = indexOf_from xs x 0"

text \<open>A \<open>Set\<close> of numbers keeps the order of insertion: a list without repetition.\<close>

definition set_add :: "nat \<Rightarrow> nat list \<Rightarrow> nat list" where
  "set_add x xs = (if x \<in> set xs then xs else xs @ [x])"

datatype side = AboveSide | BelowSide

text \<open>
  Step 5 and step 8 of the loop body: the two candidates and the choice between them.
  \<open>None\<close> is the \<open>break\<close> taken when neither candidate exists.
\<close>

definition chooseRow :: "ProfileRow list \<Rightarrow> int \<Rightarrow> int \<Rightarrow> int \<Rightarrow> (ProfileRow \<times> side) option" where
  "chooseRow rows pocIndex aboveIdx belowIdx =
     (let aboveRow = (if aboveIdx \<ge> 0 then row_at rows aboveIdx else None);
          belowRow = (if belowIdx < int (length rows) then row_at rows belowIdx else None)
      in case (aboveRow, belowRow) of
           (None, None) \<Rightarrow> None
         | (Some a, None) \<Rightarrow> Some (a, AboveSide)
         | (None, Some b) \<Rightarrow> Some (b, BelowSide)
         | (Some a, Some b) \<Rightarrow>
             if totalVolume a > totalVolume b then Some (a, AboveSide)
             else if totalVolume b > totalVolume a then Some (b, BelowSide)
             else
               (let aboveDist = pocIndex - aboveIdx;
                    belowDist = belowIdx - pocIndex
                in if aboveDist < belowDist then Some (a, AboveSide)
                   else if belowDist < aboveDist then Some (b, BelowSide)
                   else Some (a, AboveSide)))"

record va_state =
  accumulatedVolume :: real
  vaRows :: "nat list"
  aboveIndex :: int
  belowIndex :: int

text \<open>
  One pass of the \<open>while\<close> loop: \<open>None\<close> when the loop ends here (its test is
  false, or one of the two \<open>break\<close>s is taken), the next state otherwise.
\<close>

definition va_step :: "ProfileRow list \<Rightarrow> int \<Rightarrow> real \<Rightarrow> va_state \<Rightarrow> va_state option" where
  "va_step rows pocIndex targetVolume st =
     (if accumulatedVolume st < targetVolume \<and>
         (aboveIndex st \<ge> 0 \<or> belowIndex st < int (length rows)) then
        (case chooseRow rows pocIndex (aboveIndex st) (belowIndex st) of
           None \<Rightarrow> None
         | Some (chosenRow, chosenSide) \<Rightarrow>
             if accumulatedVolume st + totalVolume chosenRow > targetVolume then None
             else Some
               \<lparr>accumulatedVolume = accumulatedVolume st + totalVolume chosenRow,
                vaRows = set_add (index chosenRow) (vaRows st),
                aboveIndex = (if chosenSide = AboveSide then aboveIndex st - 1 else aboveIndex st),
                belowIndex = (if chosenSide = AboveSide then belowIndex st else belowIndex st + 1)\<rparr>)
      else None)"

text \<open>
  The loop, as the list of the states it passes through: the state at entry first,
  the state at exit last.
\<close>

function va_trace :: "ProfileRow list \<Rightarrow> int \<Rightarrow> real \<Rightarrow> va_state \<Rightarrow> va_state list" where
  "va_trace rows pocIndex targetVolume st =
     (case va_step rows pocIndex targetVolume st of
        None \<Rightarrow> [st]
      | Some st' \<Rightarrow> st # va_trace rows pocIndex targetVolume st')"
  by pat_completeness auto
termination
proof (relation "measure (\<lambda>(rows, pocIndex, targetVolume, st).
          nat (aboveIndex st + 1) + nat (int (length rows) - belowIndex st))")
  fix rows :: "ProfileRow list" and pocIndex :: int and targetVolume :: real
    and st st' :: va_state
  assume step: "va_step rows pocIndex targetVolume st = Some st'"
  then obtain r sd where ch: "chooseRow rows pocIndex (aboveIndex st) (belowIndex st) = Some (r, sd)"
    and st': "st' = \<lparr>accumulatedVolume = accumulatedVolume st + totalVolume r,
                vaRows = set_add (index r) (vaRows st),
                aboveIndex = (if sd = AboveSide then aboveIndex st - 1 else aboveIndex st),
                belowIndex = (if sd = AboveSide then belowIndex st else belowIndex st + 1)\<rparr>"
    by (auto simp add: va_step_def split: if_splits option.splits)
  have "sd = AboveSide \<longrightarrow> aboveIndex st \<ge> 0"
    using ch by (auto simp add: chooseRow_def Let_def split: if_splits option.splits)
  moreover have "sd = BelowSide \<longrightarrow> belowIndex st < int (length rows)"
    using ch by (auto simp add: chooseRow_def Let_def split: if_splits option.splits)
  ultimately show "((rows, pocIndex, targetVolume, st'), (rows, pocIndex, targetVolume, st))
      \<in> measure (\<lambda>(rows, pocIndex, targetVolume, st).
          nat (aboveIndex st + 1) + nat (int (length rows) - belowIndex st))"
    unfolding st' by (cases sd) auto
qed simp

declare va_trace.simps [simp del]

record value_area =
  va_vah :: "ProfileRow option"
  va_val :: "ProfileRow option"
  va_rows :: "nat list"

text \<open>
  Step 9: \<open>Array.from(valueAreaRows).map(idx => rows[idx]).sort(...)\<close>. The sort of the
  language is stable, calls the comparison on defined elements only and puts
  \<open>undefined\<close> elements last; the comparison \<open>b.priceLevel - a.priceLevel\<close> orders by
  descending price level.
\<close>

definition sortByPriceLevelDesc :: "ProfileRow option list \<Rightarrow> ProfileRow option list" where
  "sortByPriceLevelDesc xs =
     map Some (sort_key (\<lambda>r. - priceLevel r) (List.map_filter (\<lambda>x. x) xs))
       @ filter (\<lambda>x. x = None) xs"

text \<open>
  The pieces of \<open>calculateValueArea\<close>: the \<open>reduce\<close> that sums the row volumes
  (step 1), the target (step 2), the state before the loop (step 3), and the states
  of the loop (steps 4 to 7).
\<close>

definition totalOfRows :: "ProfileRow list \<Rightarrow> real" where
  "totalOfRows rows = foldl (\<lambda>sum r. sum + totalVolume r) 0 rows"

definition targetVolumeOf :: "ProfileRow list \<Rightarrow> real \<Rightarrow> real" where
  "targetVolumeOf rows vaPercentage = totalOfRows rows * (vaPercentage / 100)"

definition va_start :: "ProfileRow list \<Rightarrow> ProfileRow \<Rightarrow> va_state" where
  "va_start rows poc =
     \<lparr>accumulatedVolume = totalVolume poc, vaRows = [index poc],
      aboveIndex = indexOf rows poc - 1, belowIndex = indexOf rows poc + 1\<rparr>"

definition expansionStates :: "ProfileRow list \<Rightarrow> ProfileRow \<Rightarrow> real \<Rightarrow> va_state list" where
  "expansionStates rows poc vaPercentage =
     va_trace rows (indexOf rows poc) (targetVolumeOf rows vaPercentage) (va_start rows poc)"

definition calculateValueArea :: "ProfileRow list \<Rightarrow> ProfileRow \<Rightarrow> real \<Rightarrow> value_area" where
  "calculateValueArea rows poc vaPercentage =
     (if totalOfRows rows = 0
      then \<lparr>va_vah = Some poc, va_val = Some poc, va_rows = [index poc]\<rparr>
      else
        (let final = last (expansionStates rows poc vaPercentage);
             vaRowsArray = sortByPriceLevelDesc (map (at_index rows) (vaRows final))
         in \<lparr>va_vah = (case vaRowsArray of [] \<Rightarrow> None | x # _ \<Rightarrow> x),
             va_val = (if vaRowsArray = [] then None else last vaRowsArray),
             va_rows = vaRows final\<rparr>))"

subsection \<open>calculateProfile and calculateDeveloping\<close>

record dev_point =
  timestamp :: int
  dev_poc :: real
  dev_vah :: real
  dev_val :: real

text \<open>
  The returned profile. \<open>developing\<close> is \<open>None\<close> for \<open>null\<close>; the four fields of
  \<open>metadata\<close> come last.
\<close>

record profile =
  p_rows :: "ProfileRow list"
  p_poc :: ProfileRow
  p_vah :: ProfileRow
  p_val :: ProfileRow
  p_valueAreaRows :: "nat list"
  profileHigh :: real
  profileLow :: real
  developing :: "dev_point list option"
  md_totalVolume :: real
  totalBars :: nat
  priceRange :: real
  rowCount :: nat

definition developingOn :: "frvp_settings \<Rightarrow> bool" where
  \<comment> \<open>\<open>settings.developingPOC || settings.developingVA\<close>\<close>
  "developingOn settings \<longleftrightarrow> developingPOC settings = Some True \<or> developingVA settings = Some True"

definition vaPercentageOf :: "frvp_settings \<Rightarrow> real" where
  \<comment> \<open>\<open>settings.valueAreaVolume || 70\<close>\<close>
  "vaPercentageOf settings =
     (case valueAreaVolume settings of None \<Rightarrow> 70 | Some v \<Rightarrow> if v = 0 then 70 else v)"

definition developingStep :: "nat \<Rightarrow> nat" where
  \<comment> \<open>\<open>Math.max(1, Math.floor(minuteBars.length / 50))\<close>\<close>
  "developingStep n = max 1 (n div 50)"

text \<open>
  \<open>Math.max(...minuteBars.map(b => b.high))\<close> and \<open>Math.min(...minuteBars.map(b => b.low))\<close>
  for the non-empty array \<open>b # bs\<close>.
\<close>

definition profileHighOf :: "bar \<Rightarrow> bar list \<Rightarrow> real" where
  "profileHighOf b bs = fold max (map bar_high bs) (bar_high b)"

definition profileLowOf :: "bar \<Rightarrow> bar list \<Rightarrow> real" where
  "profileLowOf b bs = fold min (map bar_low bs) (bar_low b)"

definition flagsOff :: "frvp_settings \<Rightarrow> frvp_settings" where
  \<comment> \<open>\<open>{...settings, developingPOC: false, developingVA: false}\<close>\<close>
  "flagsOff settings = settings\<lparr>developingPOC := Some False, developingVA := Some False\<rparr>"

text \<open>
  The two methods call each other. The first argument is \<open>this.config\<close>. A result
  \<open>None\<close> is a call that does not return (the row loop with an infinite bound);
  \<open>Some (Inl e)\<close> is a call that throws \<open>e\<close>. The \<open>try\<close> of the sampling loop
  catches every throw and adds no point for that prefix. The log lines of
  \<open>calculateProfile\<close> read \<open>vah.priceLevel\<close> and \<open>val.priceLevel\<close>, which throws
  when one of them is \<open>undefined\<close>.
\<close>

function calculateProfile ::
    "frvp_settings \<Rightarrow> bar list option \<Rightarrow> frvp_settings \<Rightarrow> (js_error + profile) option"
  and calculateDeveloping :: "frvp_settings \<Rightarrow> bar list \<Rightarrow> frvp_settings \<Rightarrow> dev_point list option"
  and developing_loop ::
    "frvp_settings \<Rightarrow> bar list \<Rightarrow> frvp_settings \<Rightarrow> nat \<Rightarrow> dev_point list option"
where
  "calculateProfile thisConfig minuteBars config =
     (case minuteBars of
        None \<Rightarrow> Some (Inl (Error ''No data provided for FRVP calculation''))
      | Some [] \<Rightarrow> Some (Inl (Error ''No data provided for FRVP calculation''))
      | Some (b # bs) \<Rightarrow>
          (let settings = mergeSettings thisConfig config;
               pHigh = profileHighOf b bs;
               pLow = profileLowOf b bs
           in case createPriceLevelRows pLow pHigh settings of
                None \<Rightarrow> None
              | Some rows0 \<Rightarrow>
                  (let rows = distributeVolume (b # bs) rows0
                   in case calculatePOC (Some rows) of
                        Inl e \<Rightarrow> Some (Inl e)
                      | Inr poc \<Rightarrow>
                          (let va = calculateValueArea rows poc (vaPercentageOf settings)
                           in case (if developingOn settings
                                    then map_option Some (calculateDeveloping thisConfig (b # bs) settings)
                                    else Some None) of
                                None \<Rightarrow> None
                              | Some dev \<Rightarrow>
                                  (case (va_vah va, va_val va) of
                                     (Some vah, Some val) \<Rightarrow>
                                       Some (Inr
                                         \<lparr>p_rows = rows, p_poc = poc, p_vah = vah, p_val = val,
                                          p_valueAreaRows = va_rows va,
                                          profileHigh = pHigh, profileLow = pLow,
                                          developing = dev,
                                          md_totalVolume = totalOfRows rows,
                                          totalBars = length (b # bs),
                                          priceRange = pHigh - pLow,
                                          rowCount = length rows\<rparr>)
                                   | _ \<Rightarrow> Some (Inl (TypeError ''priceLevel of undefined'')))))))"
| "calculateDeveloping thisConfig minuteBars settings =
     developing_loop thisConfig minuteBars settings (developingStep (length minuteBars))"
| "developing_loop thisConfig minuteBars settings i =
     (if i \<le> length minuteBars then
        (let partialBars = take i minuteBars
         in case calculateProfile thisConfig (Some partialBars) (flagsOff settings) of
              None \<Rightarrow> None
            | Some r \<Rightarrow>
                (case developing_loop thisConfig minuteBars settings
                        (i + developingStep (length minuteBars)) of
                   None \<Rightarrow> None
                 | Some rest \<Rightarrow>
                     Some ((case r of
                              Inl e \<Rightarrow> []
                            | Inr partialProfile \<Rightarrow>
                                [\<lparr>timestamp = bar_time (last partialBars),
                                  dev_poc = priceLevel (p_poc partialProfile),
                                  dev_vah = priceLevel (p_vah partialProfile),
                                  dev_val = priceLevel (p_val partialProfile)\<rparr>]) @ rest)))
      else Some [])"
  by pat_completeness auto
termination
proof (relation "inv_image (less_than <*lex*> less_than)
    (\<lambda>x. case x of
        Inl (thisConfig, minuteBars, config) \<Rightarrow>
          (if developingOn (mergeSettings thisConfig config) then 3 else 0, 0)
      | Inr (Inl (thisConfig, minuteBars, settings)) \<Rightarrow> (2 :: nat, 0 :: nat)
      | Inr (Inr (thisConfig, minuteBars, settings, i)) \<Rightarrow> (1, Suc (length minuteBars) - i))")
  show "wf (inv_image (less_than <*lex*> less_than)
    (\<lambda>x. case x of
        Inl (thisConfig, minuteBars, config) \<Rightarrow>
          (if developingOn (mergeSettings thisConfig config) then 3 else 0, 0)
      | Inr (Inl (thisConfig, minuteBars, settings)) \<Rightarrow> (2 :: nat, 0 :: nat)
      | Inr (Inr (thisConfig, minuteBars, settings, i)) \<Rightarrow> (1, Suc (length minuteBars) - i)))"
    by (intro wf_inv_image wf_lex_prod wf_less_than)
qed (auto simp add: developingStep_def flagsOff_def mergeSettings_def developingOn_def orElse_def)

declare calculateProfile.simps [simp del]
declare calculateDeveloping.simps [simp del]
declare developing_loop.simps [simp del]

section \<open>Well-formed rows and the invariant of the expansion loop\<close>

text \<open>
  Every row made by \<open>createPriceLevelRows\<close> carries its position in the array in its
  \<open>index\<close> field; the code relies on it when it reads \<open>rows[idx]\<close> for the indices of
  the value area.
\<close>

definition rows_wf :: "ProfileRow list \<Rightarrow> bool" where
  "rows_wf rows \<longleftrightarrow> map index rows = [0..<length rows]"

text \<open>
  What holds of the two cursors and of the set of indices in every state of the loop,
  for \<open>n\<close> rows and the POC at position \<open>p\<close>: the indices collected so far are the
  ones strictly between the two cursors.
\<close>

definition cursors_ok :: "nat \<Rightarrow> nat \<Rightarrow> va_state \<Rightarrow> bool" where
  "cursors_ok n p st \<longleftrightarrow>
     - 1 \<le> aboveIndex st \<and> aboveIndex st < int p \<and> int p < belowIndex st \<and>
     belowIndex st \<le> int n \<and>
     set (vaRows st) = {nat (aboveIndex st + 1) .. nat (belowIndex st - 1)} \<and>
     distinct (vaRows st)"

text \<open>The rows of the value area in the order step 9 sorts them into.\<close>

definition sortedArea :: "ProfileRow list \<Rightarrow> ProfileRow \<Rightarrow> real \<Rightarrow> ProfileRow list" where
  "sortedArea rows poc v =
     sort_key (\<lambda>r. - priceLevel r) (map ((!) rows) (vaRows (last (expansionStates rows poc v))))"

text \<open>
  The share of a bar's volume that \<open>distributeVolume\<close> gives to a row, and what it
  means for rows to tile the range from \<open>lo\<close> to \<open>hi\<close> with \<open>N\<close> rows of height \<open>a\<close>,
  the last one cut at \<open>hi\<close>.
\<close>

definition overlapShare :: "bar \<Rightarrow> ProfileRow \<Rightarrow> real" where
  "overlapShare b r =
     (if rangesOverlap (bar_low b) (bar_high b) (priceLow r) (priceHigh r)
      then calculateOverlapRatio (bar_low b) (bar_high b) (priceLow r) (priceHigh r) else 0)"

definition tiled :: "real \<Rightarrow> real \<Rightarrow> real \<Rightarrow> nat \<Rightarrow> ProfileRow list \<Rightarrow> bool" where
  "tiled lo hi a N rows \<longleftrightarrow>
     map priceLow rows = map (\<lambda>i. lo + real i * a) [0..<N] \<and>
     map priceHigh rows = map (\<lambda>i. min (lo + real i * a + a) hi) [0..<N]"

section \<open>Example data\<close>

text \<open>
  Three five-minute candles and three 1-minute bars, on which the theorems below are
  evaluated.
\<close>

definition exampleCandles :: "bar list" where
  "exampleCandles =
     [\<lparr>bar_time = 0, bar_open = 10, bar_high = 12, bar_low = 9, bar_close = 11, bar_volume = 100\<rparr>,
      \<lparr>bar_time = 300, bar_open = 11, bar_high = 11, bar_low = 8, bar_close = 9, bar_volume = 200\<rparr>,
      \<lparr>bar_time = 600, bar_open = 9, bar_high = 10, bar_low = 9, bar_close = 10, bar_volume = 50\<rparr>]"

definition exampleMinutes :: "bar list" where
  "exampleMinutes =
     [\<lparr>bar_time = 0, bar_open = 10, bar_high = 11, bar_low = 10, bar_close = 11, bar_volume = 30\<rparr>,
      \<lparr>bar_time = 60, bar_open = 11, bar_high = 11, bar_low = 10, bar_close = 10, bar_volume = 10\<rparr>,
      \<lparr>bar_time = 600, bar_open = 9, bar_high = 10, bar_low = 9, bar_close = 10, bar_volume = 50\<rparr>]"

text \<open>Four bars for the relative strength index, with closes 10, 12, 11, 14.\<close>

definition exampleCloses :: "bar list" where
  "exampleCloses =
     [\<lparr>bar_time = 0, bar_open = 10, bar_high = 10, bar_low = 10, bar_close = 10, bar_volume = 1\<rparr>,
      \<lparr>bar_time = 60, bar_open = 10, bar_high = 12, bar_low = 10, bar_close = 12, bar_volume = 1\<rparr>,
      \<lparr>bar_time = 120, bar_open = 12, bar_high = 12, bar_low = 11, bar_close = 11, bar_volume = 1\<rparr>,
      \<lparr>bar_time = 180, bar_open = 11, bar_high = 14, bar_low = 11, bar_close = 14, bar_volume = 1\<rparr>]"

text \<open>
  Five rows with the volumes 4, 4, 10, 4, 10: the maximum occurs twice, and the rows on
  the two sides of row 2 carry equal volume.
\<close>

definition exampleRows :: "ProfileRow list" where
  "exampleRows =
     [\<lparr>index = 0, priceLow = 8, priceHigh = 9, priceLevel = 17 / 2,
       upVolume = 3, downVolume = 1, totalVolume = 4, delta = 2\<rparr>,
      \<lparr>index = 1, priceLow = 9, priceHigh = 10, priceLevel = 19 / 2,
       upVolume = 4, downVolume = 0, totalVolume = 4, delta = 4\<rparr>,
      \<lparr>index = 2, priceLow = 10, priceHigh = 11, priceLevel = 21 / 2,
       upVolume = 6, downVolume = 4, totalVolume = 10, delta = 2\<rparr>,
      \<lparr>index = 3, priceLow = 11, priceHigh = 12, priceLevel = 23 / 2,
       upVolume = 0, downVolume = 4, totalVolume = 4, delta = - 4\<rparr>,
      \<lparr>index = 4, priceLow = 12, priceHigh = 13, priceLevel = 25 / 2,
       upVolume = 5, downVolume = 5, totalVolume = 10, delta = 0\<rparr>]"


text \<open>
  The two bars of the specification's first scenario with its settings (\<open>Number\<close>
  layout, two rows), the two empty rows made for their range from 8 to 12, and a
  pair of bars of which the second has no range (\<open>high = low\<close>).
\<close>

definition scenarioBars :: "bar list" where
  "scenarioBars =
     [\<lparr>bar_time = 0, bar_open = 10, bar_high = 12, bar_low = 9, bar_close = 11, bar_volume = 100\<rparr>,
      \<lparr>bar_time = 60, bar_open = 11, bar_high = 11, bar_low = 8, bar_close = 9, bar_volume = 200\<rparr>]"

definition scenarioSettings :: frvp_settings where
  "scenarioSettings =
     \<lparr>rowSize = Some 2, rowsLayout = Some ''Number'', valueAreaVolume = None,
      developingPOC = None, developingVA = None\<rparr>"

definition scenarioRows :: "ProfileRow list" where
  "scenarioRows =
     [\<lparr>index = 0, priceLow = 8, priceHigh = 10, priceLevel = 9,
       upVolume = 0, downVolume = 0, totalVolume = 0, delta = 0\<rparr>,
      \<lparr>index = 1, priceLow = 10, priceHigh = 12, priceLevel = 11,
       upVolume = 0, downVolume = 0, totalVolume = 0, delta = 0\<rparr>]"

definition flatBars :: "bar list" where
  "flatBars =
     [\<lparr>bar_time = 0, bar_open = 9, bar_high = 12, bar_low = 8, bar_close = 11, bar_volume = 100\<rparr>,
      \<lparr>bar_time = 60, bar_open = 10, bar_high = 10, bar_low = 10, bar_close = 10, bar_volume = 50\<rparr>]"

text \<open>
  A calculator without configuration of its own, settings that ask for the developing
  indicators, and a series of \<open>n\<close> bars one minute apart.
\<close>

definition defaultConfig :: frvp_settings where
  "defaultConfig =
     \<lparr>rowSize = None, rowsLayout = None, valueAreaVolume = None,
      developingPOC = None, developingVA = None\<rparr>"

definition developingSettings :: frvp_settings where
  "developingSettings =
     \<lparr>rowSize = Some 2, rowsLayout = Some ''Number'', valueAreaVolume = Some 70,
      developingPOC = Some True, developingVA = Some True\<rparr>"

definition minuteSeries :: "nat \<Rightarrow> bar list" where
  "minuteSeries n =
     map (\<lambda>k. \<lparr>bar_time = 60 * int k, bar_open = 10, bar_high = 12, bar_low = 9,
               bar_close = 11, bar_volume = 100\<rparr>) [0..<n]"

section \<open>Properties of the cumulative volume delta\<close>

lemma openCVD_calculateCVDForCandle:
  "openCVD (calculateCVDForCandle c ms prev) = prev"
  by (simp add: calculateCVDForCandle_def flatCVD_def split: option.splits list.splits prod.splits)

lemma calculateCVDForCandle_empty:
  "calculateCVDForCandle c (Some []) prev = flatCVD prev"
  by (simp add: calculateCVDForCandle_def)

lemma cvd_loop_length:
  "length (cvd_loop g p opts ms cum cur cs) = length cs"
  by (induction cs arbitrary: cum cur) (simp_all add: Let_def)

lemma cvd_loop_first_open:
  "cvd_open (cvd_loop g p opts ms cum cur (c # cs) ! 0) =
     (if cur = Some (g (bar_time c) (anchorPeriodOf opts)) then cum else 0)"
  by (auto simp add: Let_def openCVD_calculateCVDForCandle)

lemma cvd_loop_consecutive:
  "Suc i < length cs \<Longrightarrow>
   cvd_open (cvd_loop g p opts ms cum cur cs ! Suc i) =
     (if g (bar_time (cs ! Suc i)) (anchorPeriodOf opts) = g (bar_time (cs ! i)) (anchorPeriodOf opts)
      then cvd_close (cvd_loop g p opts ms cum cur cs ! i) else 0)"
proof (induction cs arbitrary: cum cur i)
  case Nil
  then show ?case by simp
next
  case (Cons c cs)
  show ?case
  proof (cases i)
    case 0
    with Cons.prems obtain c' cs' where cs: "cs = c' # cs'"
      by (cases cs) auto
    show ?thesis
      unfolding 0 cs
      by (simp add: Let_def openCVD_calculateCVDForCandle eq_commute)
  next
    case (Suc j)
    with Cons.prems have "Suc j < length cs" by simp
    from Cons.IH [OF this] show ?thesis
      unfolding Suc by (simp add: Let_def)
  qed
qed

lemma cvd_loop_flat:
  "i < length cs \<Longrightarrow> relevantOneMinCandles p opts ms (bar_time (cs ! i)) = [] \<Longrightarrow>
   cvd_high (cvd_loop g p opts ms cum cur cs ! i) = cvd_open (cvd_loop g p opts ms cum cur cs ! i) \<and>
   cvd_low (cvd_loop g p opts ms cum cur cs ! i) = cvd_open (cvd_loop g p opts ms cum cur cs ! i) \<and>
   cvd_close (cvd_loop g p opts ms cum cur cs ! i) = cvd_open (cvd_loop g p opts ms cum cur cs ! i)"
proof (induction cs arbitrary: cum cur i)
  case Nil
  then show ?case by simp
next
  case (Cons c cs)
  show ?case
  proof (cases i)
    case 0
    with Cons.prems show ?thesis
      by (simp add: Let_def calculateCVDForCandle_empty flatCVD_def)
  next
    case (Suc j)
    with Cons.prems show ?thesis
      using Cons.IH [of j] by (simp add: Let_def)
  qed
qed

text \<open>
  Claim C8. For a doji bar (\<open>close = open\<close>), \<open>calculateDeltaForBar\<close> returns
  \<open>+volume\<close> when a previous bar exists and the close is above the previous close,
  \<open>-volume\<close> when it is below, and otherwise the volume with the sign of the previous
  delta (\<open>+volume\<close> for a positive previous delta, \<open>-volume\<close> for a negative one), and
  \<open>0\<close> when there is no previous delta or it is zero. In particular a doji at 50
  after a bar that closed at 48 gets \<open>+volume\<close>.
\<close>

theorem calculateDeltaForBar_doji:
  "(bar_close b = bar_open b \<longrightarrow>
      calculateDeltaForBar b previousBar previousDelta =
        (if \<exists>pb. previousBar = Some pb \<and> bar_close b > bar_close pb then bar_volume b
         else if \<exists>pb. previousBar = Some pb \<and> bar_close b < bar_close pb then - bar_volume b
         else (case previousDelta of
                 None \<Rightarrow> 0
               | Some d \<Rightarrow> if d > 0 then bar_volume b
                           else if d < 0 then - bar_volume b else 0))) \<and>
   (bar_open b = 50 \<and> bar_close b = 50 \<and> bar_close pb = 48 \<longrightarrow>
      calculateDeltaForBar b (Some pb) previousDelta = bar_volume b)"
  by (auto simp add: calculateDeltaForBar_def inheritDelta_def split: option.splits)

theorem calculateDeltaForBar_doji_witness:
  "calculateDeltaForBar
     \<lparr>bar_time = 60, bar_open = 50, bar_high = 51, bar_low = 49, bar_close = 50, bar_volume = 7\<rparr>
     (Some \<lparr>bar_time = 0, bar_open = 47, bar_high = 49, bar_low = 46, bar_close = 48, bar_volume = 3\<rparr>)
     (Some (- 3)) = 7 \<and>
   calculateDeltaForBar
     \<lparr>bar_time = 60, bar_open = 50, bar_high = 51, bar_low = 49, bar_close = 50, bar_volume = 7\<rparr>
     (Some \<lparr>bar_time = 0, bar_open = 51, bar_high = 51, bar_low = 50, bar_close = 50, bar_volume = 3\<rparr>)
     (Some (- 3)) = - 7"
  using calculateDeltaForBar_doji
     [of "\<lparr>bar_time = 60, bar_open = 50, bar_high = 51, bar_low = 49, bar_close = 50, bar_volume = 7\<rparr>"
         "Some \<lparr>bar_time = 0, bar_open = 47, bar_high = 49, bar_low = 46, bar_close = 48, bar_volume = 3\<rparr>"
         "Some (- 3)"
         "\<lparr>bar_time = 0, bar_open = 47, bar_high = 49, bar_low = 46, bar_close = 48, bar_volume = 3\<rparr>"]
    calculateDeltaForBar_doji
     [of "\<lparr>bar_time = 60, bar_open = 50, bar_high = 51, bar_low = 49, bar_close = 50, bar_volume = 7\<rparr>"
         "Some \<lparr>bar_time = 0, bar_open = 51, bar_high = 51, bar_low = 50, bar_close = 50, bar_volume = 3\<rparr>"
         "Some (- 3)"]
  by simp

text \<open>
  Claim C4. In the output of \<open>calculateCVD\<close> there is one candle for each input
  candle; the first opens at 0; a candle whose anchor-period start equals that of
  the candle before it opens at the close of that candle, and a candle whose
  anchor-period start differs opens at 0; and a candle whose window
  \<open>[candleTime, candleTime + timeframeSeconds)\<close> holds no 1-minute bar has its high,
  low and close equal to its open, the inherited value. This holds for every anchor
  function and every reading of the timeframe.
\<close>

theorem calculateCVD_continuity:
  "length (calculateCVD g p candles oneMin opts) = length candles \<and>
   (candles \<noteq> [] \<longrightarrow> cvd_open (calculateCVD g p candles oneMin opts ! 0) = 0) \<and>
   (Suc i < length candles \<longrightarrow>
      cvd_open (calculateCVD g p candles oneMin opts ! Suc i) =
        (if g (bar_time (candles ! Suc i)) (anchorPeriodOf opts)
            = g (bar_time (candles ! i)) (anchorPeriodOf opts)
         then cvd_close (calculateCVD g p candles oneMin opts ! i) else 0)) \<and>
   (j < length candles \<and> relevantOneMinCandles p opts oneMin (bar_time (candles ! j)) = [] \<longrightarrow>
      cvd_high (calculateCVD g p candles oneMin opts ! j)
        = cvd_open (calculateCVD g p candles oneMin opts ! j) \<and>
      cvd_low (calculateCVD g p candles oneMin opts ! j)
        = cvd_open (calculateCVD g p candles oneMin opts ! j) \<and>
      cvd_close (calculateCVD g p candles oneMin opts ! j)
        = cvd_open (calculateCVD g p candles oneMin opts ! j))"
proof (intro conjI impI)
  show "length (calculateCVD g p candles oneMin opts) = length candles"
    by (simp add: calculateCVD_def cvd_loop_length)
next
  assume "candles \<noteq> []"
  then obtain c cs where "candles = c # cs" by (cases candles) auto
  then show "cvd_open (calculateCVD g p candles oneMin opts ! 0) = 0"
    unfolding calculateCVD_def by (simp only: cvd_loop_first_open) simp
next
  assume "Suc i < length candles"
  then show "cvd_open (calculateCVD g p candles oneMin opts ! Suc i) =
        (if g (bar_time (candles ! Suc i)) (anchorPeriodOf opts)
            = g (bar_time (candles ! i)) (anchorPeriodOf opts)
         then cvd_close (calculateCVD g p candles oneMin opts ! i) else 0)"
    unfolding calculateCVD_def by (rule cvd_loop_consecutive)
next
  assume a: "j < length candles \<and> relevantOneMinCandles p opts oneMin (bar_time (candles ! j)) = []"
  from cvd_loop_flat [of j candles p opts oneMin g 0 None] a
  show "cvd_high (calculateCVD g p candles oneMin opts ! j)
        = cvd_open (calculateCVD g p candles oneMin opts ! j)"
    and "cvd_low (calculateCVD g p candles oneMin opts ! j)
        = cvd_open (calculateCVD g p candles oneMin opts ! j)"
    and "cvd_close (calculateCVD g p candles oneMin opts ! j)
        = cvd_open (calculateCVD g p candles oneMin opts ! j)"
    unfolding calculateCVD_def by simp_all
qed

theorem calculateCVD_continuity_witness:
  "cvd_open (calculateCVD (\<lambda>t a. (t div 600) * 600) (\<lambda>s. Some 5) exampleCandles exampleMinutes
       \<lparr>anchorPeriod = None, chartTimeframe = None\<rparr> ! Suc 0) = 20 \<and>
   cvd_close (calculateCVD (\<lambda>t a. (t div 600) * 600) (\<lambda>s. Some 5) exampleCandles exampleMinutes
       \<lparr>anchorPeriod = None, chartTimeframe = None\<rparr> ! 0) = 20 \<and>
   cvd_high (calculateCVD (\<lambda>t a. (t div 600) * 600) (\<lambda>s. Some 5) exampleCandles exampleMinutes
       \<lparr>anchorPeriod = None, chartTimeframe = None\<rparr> ! 1) = 20 \<and>
   cvd_open (calculateCVD (\<lambda>t a. (t div 600) * 600) (\<lambda>s. Some 5) exampleCandles exampleMinutes
       \<lparr>anchorPeriod = None, chartTimeframe = None\<rparr> ! Suc 1) = 0"
proof -
  let ?g = "\<lambda>(t :: int) (a :: string). (t div 600) * 600"
  let ?p = "\<lambda>s :: string. Some (5 :: int)"
  let ?o = "\<lparr>anchorPeriod = None, chartTimeframe = None\<rparr>"
  let ?out = "calculateCVD ?g ?p exampleCandles exampleMinutes ?o"
  have close0: "cvd_close (?out ! 0) = 20"
    by (simp add: calculateCVD_def exampleCandles_def exampleMinutes_def Let_def
        relevantOneMinCandles_def timeframeSeconds_def calculateCVDForCandle_def
        calculate1MinuteDeltas_def calculateDeltaForBar_def anchorPeriodOf_def)
  have len: "Suc 0 < length exampleCandles" "Suc 1 < length exampleCandles" "1 < length exampleCandles"
    by (simp_all add: exampleCandles_def)
  have same: "?g (bar_time (exampleCandles ! Suc 0)) (anchorPeriodOf ?o)
                = ?g (bar_time (exampleCandles ! 0)) (anchorPeriodOf ?o)"
    by (simp add: exampleCandles_def)
  have differ: "?g (bar_time (exampleCandles ! Suc 1)) (anchorPeriodOf ?o)
                \<noteq> ?g (bar_time (exampleCandles ! 1)) (anchorPeriodOf ?o)"
    by (simp add: exampleCandles_def)
  have empty: "relevantOneMinCandles ?p ?o exampleMinutes (bar_time (exampleCandles ! 1)) = []"
    by (simp add: exampleCandles_def exampleMinutes_def relevantOneMinCandles_def
        timeframeSeconds_def)
  from calculateCVD_continuity [of ?g ?p exampleCandles exampleMinutes ?o 0 1] len same empty
  have a: "cvd_open (?out ! Suc 0) = cvd_close (?out ! 0)"
    and b: "cvd_high (?out ! 1) = cvd_open (?out ! 1)"
    by simp_all
  from calculateCVD_continuity [of ?g ?p exampleCandles exampleMinutes ?o 1 1] len differ
  have c: "cvd_open (?out ! Suc 1) = 0"
    by simp
  from a b c close0 show ?thesis by simp
qed

section \<open>Properties of the relative strength index\<close>

lemma foldl_plus_sum_list: "foldl (+) a xs = a + sum_list (xs :: real list)"
  by (induction xs arbitrary: a) simp_all

lemma rsiGains_nonneg: "x \<in> set (rsiGains data) \<Longrightarrow> 0 \<le> x"
  by (auto simp add: rsiGains_def)

lemma rsiLosses_nonneg: "x \<in> set (rsiLosses data) \<Longrightarrow> 0 \<le> x"
  by (auto simp add: rsiLosses_def)

lemma rsiFromAverages_bounds:
  assumes "0 \<le> avgGain" and "0 \<le> avgLoss"
  shows "0 \<le> rsiFromAverages avgGain avgLoss \<and> rsiFromAverages avgGain avgLoss \<le> 100"
proof (cases "avgLoss = 0")
  case True
  then show ?thesis by (simp add: rsiFromAverages_def)
next
  case False
  with assms have pos: "0 < avgLoss" by simp
  with assms have rs: "0 \<le> avgGain / avgLoss" by simp
  then have "1 \<le> 1 + avgGain / avgLoss" by simp
  then have "100 / (1 + avgGain / avgLoss) \<le> 100 / 1"
    by (intro divide_left_mono) simp_all
  moreover have "0 \<le> 100 / (1 + avgGain / avgLoss)"
    using rs by simp
  ultimately show ?thesis
    using False by (simp add: rsiFromAverages_def)
qed

lemma emitPoint_value: "p \<in> set (emitPoint data i v) \<Longrightarrow> pt_value p = v"
  by (auto simp add: emitPoint_def split: option.splits)

lemma rsi_loop_bounds:
  "p \<in> set (rsi_loop data period avgGain avgLoss i) \<Longrightarrow> 0 \<le> pt_value p \<and> pt_value p \<le> 100"
proof (induction data period avgGain avgLoss i rule: rsi_loop.induct)
  case (1 data period avgGain avgLoss i)
  show ?case
  proof (cases "i < length (rsiGains data)")
    case True
    let ?g = "(avgGain * (real period - 1) + rsiGains data ! i) / real period"
    let ?l = "(avgLoss * (real period - 1) + rsiLosses data ! i) / real period"
    let ?r = "max 0 (min 100 (rsiFromAverages ?g ?l))"
    from "1.prems" True have "p \<in> set (emitPoint data (i + 1) ?r)
        \<or> p \<in> set (rsi_loop data period ?g ?l (i + 1))"
      by (subst (asm) rsi_loop.simps) (simp add: Let_def)
    then show ?thesis
    proof
      assume "p \<in> set (emitPoint data (i + 1) ?r)"
      then have "pt_value p = ?r" by (rule emitPoint_value)
      then show ?thesis by simp
    next
      assume "p \<in> set (rsi_loop data period ?g ?l (i + 1))"
      with "1.IH" [OF True refl refl refl] show ?thesis by simp
    qed
  next
    case False
    with "1.prems" show ?thesis
      by (subst (asm) rsi_loop.simps) simp
  qed
qed

text \<open>
  Claim C5. For every candle series and every positive period, every value of the
  series returned by \<open>calculateRSI\<close> lies between 0 and 100, the first value (which
  the code does not clamp) included.
\<close>

theorem calculateRSI_bounds:
  assumes "0 < period" and "p \<in> set (calculateRSI data period)"
  shows "0 \<le> pt_value p \<and> pt_value p \<le> 100"
proof -
  let ?g = "foldl (+) 0 (take period (rsiGains data)) / real period"
  let ?l = "foldl (+) 0 (take period (rsiLosses data)) / real period"
  have "0 \<le> sum_list (take period (rsiGains data))"
    by (rule sum_list_nonneg) (auto dest: in_set_takeD rsiGains_nonneg)
  then have g: "0 \<le> ?g"
    by (simp add: foldl_plus_sum_list)
  have "0 \<le> sum_list (take period (rsiLosses data))"
    by (rule sum_list_nonneg) (auto dest: in_set_takeD rsiLosses_nonneg)
  then have l: "0 \<le> ?l"
    by (simp add: foldl_plus_sum_list)
  from assms(2) have "p \<in> set (emitPoint data period (rsiFromAverages ?g ?l))
      \<or> p \<in> set (rsi_loop data period ?g ?l period)"
    by (auto simp add: calculateRSI_def Let_def split: if_splits)
  then show ?thesis
  proof
    assume "p \<in> set (emitPoint data period (rsiFromAverages ?g ?l))"
    then have "pt_value p = rsiFromAverages ?g ?l" by (rule emitPoint_value)
    with rsiFromAverages_bounds [OF g l] show ?thesis by simp
  next
    assume "p \<in> set (rsi_loop data period ?g ?l period)"
    then show ?thesis by (rule rsi_loop_bounds)
  qed
qed

lemma calculateRSI_example:
  "calculateRSI exampleCloses 2 =
     [\<lparr>pt_time = 120, pt_value = 200 / 3\<rparr>, \<lparr>pt_time = 180, pt_value = 800 / 9\<rparr>]"
  by (simp add: calculateRSI_def exampleCloses_def rsiGains_def rsiLosses_def Let_def
      emitPoint_def at_index_def rsiFromAverages_def rsi_loop.simps)

theorem calculateRSI_bounds_witness:
  "0 < (2 :: nat) \<and> length (calculateRSI exampleCloses 2) = 2 \<and>
   0 \<le> pt_value (calculateRSI exampleCloses 2 ! 0) \<and> pt_value (calculateRSI exampleCloses 2 ! 0) \<le> 100 \<and>
   0 \<le> pt_value (calculateRSI exampleCloses 2 ! 1) \<and> pt_value (calculateRSI exampleCloses 2 ! 1) \<le> 100"
proof -
  have pos: "0 < (2 :: nat)" by simp
  have len: "length (calculateRSI exampleCloses 2) = 2"
    by (simp add: calculateRSI_example)
  then have m0: "calculateRSI exampleCloses 2 ! 0 \<in> set (calculateRSI exampleCloses 2)"
    and m1: "calculateRSI exampleCloses 2 ! 1 \<in> set (calculateRSI exampleCloses 2)"
    by simp_all
  from calculateRSI_bounds [OF pos m0] calculateRSI_bounds [OF pos m1] len
  show ?thesis by simp
qed

section \<open>Properties of the volume profile\<close>

subsection \<open>Point of control\<close>

lemma foldl_pickMax:
  "(foldl pickMax m xs = m \<and> (\<forall>x \<in> set xs. totalVolume x \<le> totalVolume m)) \<or>
   (\<exists>i < length xs. foldl pickMax m xs = xs ! i \<and> totalVolume m < totalVolume (xs ! i) \<and>
      (\<forall>j < length xs. totalVolume (xs ! j) \<le> totalVolume (xs ! i)) \<and>
      (\<forall>j < i. totalVolume (xs ! j) < totalVolume (xs ! i)))"
proof (induction xs rule: rev_induct)
  case Nil
  then show ?case by simp
next
  case (snoc x xs)
  let ?r = "foldl pickMax m xs"
  show ?case
  proof (cases "totalVolume x > totalVolume ?r")
    case True
    then have res: "foldl pickMax m (xs @ [x]) = x"
      by (simp add: pickMax_def)
    from snoc.IH True have below: "\<forall>j < length xs. totalVolume (xs ! j) < totalVolume x"
      and m: "totalVolume m < totalVolume x"
      by (auto simp add: all_set_conv_all_nth)
    have "foldl pickMax m (xs @ [x]) = (xs @ [x]) ! length xs" using res by simp
    moreover have "totalVolume m < totalVolume ((xs @ [x]) ! length xs)" using m by simp
    moreover have "\<forall>j < length (xs @ [x]). totalVolume ((xs @ [x]) ! j) \<le> totalVolume ((xs @ [x]) ! length xs)"
      using below by (auto simp add: nth_append less_Suc_eq less_imp_le)
    moreover have "\<forall>j < length xs. totalVolume ((xs @ [x]) ! j) < totalVolume ((xs @ [x]) ! length xs)"
      using below by (simp add: nth_append)
    ultimately show ?thesis
      by (intro disjI2 exI [of _ "length xs"]) simp
  next
    case False
    then have res: "foldl pickMax m (xs @ [x]) = ?r"
      by (simp add: pickMax_def)
    from snoc.IH show ?thesis
    proof
      assume a: "?r = m \<and> (\<forall>x \<in> set xs. totalVolume x \<le> totalVolume m)"
      with False res show ?thesis by auto
    next
      assume "\<exists>i < length xs. ?r = xs ! i \<and> totalVolume m < totalVolume (xs ! i) \<and>
        (\<forall>j < length xs. totalVolume (xs ! j) \<le> totalVolume (xs ! i)) \<and>
        (\<forall>j < i. totalVolume (xs ! j) < totalVolume (xs ! i))"
      then obtain i where i: "i < length xs" "?r = xs ! i" "totalVolume m < totalVolume (xs ! i)"
        "\<forall>j < length xs. totalVolume (xs ! j) \<le> totalVolume (xs ! i)"
        "\<forall>j < i. totalVolume (xs ! j) < totalVolume (xs ! i)"
        by blast
      have "i < length (xs @ [x])" using i(1) by simp
      moreover have "foldl pickMax m (xs @ [x]) = (xs @ [x]) ! i"
        using res i(1,2) by (simp add: nth_append)
      moreover have "totalVolume m < totalVolume ((xs @ [x]) ! i)"
        using i(1,3) by (simp add: nth_append)
      moreover have "\<forall>j < length (xs @ [x]). totalVolume ((xs @ [x]) ! j) \<le> totalVolume ((xs @ [x]) ! i)"
        using i(1,2,4) False by (auto simp add: nth_append less_Suc_eq)
      moreover have "\<forall>j < i. totalVolume ((xs @ [x]) ! j) < totalVolume ((xs @ [x]) ! i)"
        using i(1,5) by (simp add: nth_append)
      ultimately show ?thesis by blast
    qed
  qed
qed

lemma calculatePOC_Cons:
  "calculatePOC (Some (r0 # rest)) = Inr (foldl pickMax r0 rest)"
  by (simp add: calculatePOC_def pickMax_def)

text \<open>
  Claim C6. For every non-empty row list \<open>calculatePOC\<close> returns a row of maximum
  \<open>totalVolume\<close>, and of the rows that share the maximum the one first in the list:
  every row before it has strictly less volume.
\<close>

theorem calculatePOC_first_maximum:
  assumes "rows \<noteq> []"
  shows "\<exists>i < length rows. calculatePOC (Some rows) = Inr (rows ! i) \<and>
           (\<forall>j < length rows. totalVolume (rows ! j) \<le> totalVolume (rows ! i)) \<and>
           (\<forall>j < i. totalVolume (rows ! j) < totalVolume (rows ! i))"
proof -
  from assms obtain r0 rest where rows: "rows = r0 # rest"
    by (cases rows) auto
  from foldl_pickMax [of r0 rest] show ?thesis
  proof
    assume a: "foldl pickMax r0 rest = r0 \<and> (\<forall>x \<in> set rest. totalVolume x \<le> totalVolume r0)"
    then have "\<forall>j < length rows. totalVolume (rows ! j) \<le> totalVolume (rows ! 0)"
      unfolding rows by (auto simp add: nth_Cons split: nat.splits)
    with a show ?thesis
      unfolding rows by (intro exI [of _ 0]) (simp add: calculatePOC_Cons)
  next
    assume "\<exists>i < length rest. foldl pickMax r0 rest = rest ! i \<and>
        totalVolume r0 < totalVolume (rest ! i) \<and>
        (\<forall>j < length rest. totalVolume (rest ! j) \<le> totalVolume (rest ! i)) \<and>
        (\<forall>j < i. totalVolume (rest ! j) < totalVolume (rest ! i))"
    then obtain i where i: "i < length rest" "foldl pickMax r0 rest = rest ! i"
        "totalVolume r0 < totalVolume (rest ! i)"
        "\<forall>j < length rest. totalVolume (rest ! j) \<le> totalVolume (rest ! i)"
        "\<forall>j < i. totalVolume (rest ! j) < totalVolume (rest ! i)"
      by blast
    have "Suc i < length rows" using i(1) by (simp add: rows)
    moreover have "calculatePOC (Some rows) = Inr (rows ! Suc i)"
      using i(2) by (simp add: rows calculatePOC_Cons)
    moreover have "\<forall>j < length rows. totalVolume (rows ! j) \<le> totalVolume (rows ! Suc i)"
      using i(3,4) unfolding rows by (auto simp add: nth_Cons split: nat.splits)
    moreover have "\<forall>j < Suc i. totalVolume (rows ! j) < totalVolume (rows ! Suc i)"
      using i(3,5) unfolding rows by (auto simp add: nth_Cons split: nat.splits)
    ultimately show ?thesis by blast
  qed
qed

theorem calculatePOC_first_maximum_witness:
  "exampleRows \<noteq> [] \<and> calculatePOC (Some exampleRows) = Inr (exampleRows ! 2)"
proof -
  have ne: "exampleRows \<noteq> []" by (simp add: exampleRows_def)
  from calculatePOC_first_maximum [OF ne] obtain i where
    i: "i < length exampleRows" "calculatePOC (Some exampleRows) = Inr (exampleRows ! i)"
       "\<forall>j < length exampleRows. totalVolume (exampleRows ! j) \<le> totalVolume (exampleRows ! i)"
       "\<forall>j < i. totalVolume (exampleRows ! j) < totalVolume (exampleRows ! i)"
    by blast
  from i(1) have "i = 0 \<or> i = 1 \<or> i = 2 \<or> i = 3 \<or> i = 4"
    by (auto simp add: exampleRows_def)
  moreover have "2 < length exampleRows"
    by (simp add: exampleRows_def)
  with i(3) have "totalVolume (exampleRows ! 2) \<le> totalVolume (exampleRows ! i)"
    by blast
  moreover from i(4) have "2 < i \<longrightarrow> totalVolume (exampleRows ! 2) < totalVolume (exampleRows ! i)"
    by simp
  ultimately have "i = 2"
    by (auto simp add: exampleRows_def)
  with i(2) ne show ?thesis by simp
qed

subsection \<open>The choice between the two candidates\<close>

text \<open>
  Claim C2. In the expansion loop of \<open>calculateValueArea\<close>, when only one of the two
  cursor candidates is in range it is chosen; when both are, the one with strictly
  greater \<open>totalVolume\<close> is chosen; on equal volume the one closer to the POC; and on
  equal distance the candidate of the \<open>above\<close> cursor, which starts at \<open>pocIndex - 1\<close>.
\<close>

theorem chooseRow_rules:
  fixes rows :: "ProfileRow list" and pocIndex aboveIdx belowIdx :: int
  defines "inRange \<equiv> \<lambda>k. 0 \<le> k \<and> k < int (length rows)"
  defines "a \<equiv> rows ! nat aboveIdx" and "b \<equiv> rows ! nat belowIdx"
  shows
  "(inRange aboveIdx \<and> \<not> inRange belowIdx \<longrightarrow>
      chooseRow rows pocIndex aboveIdx belowIdx = Some (a, AboveSide)) \<and>
   (\<not> inRange aboveIdx \<and> inRange belowIdx \<longrightarrow>
      chooseRow rows pocIndex aboveIdx belowIdx = Some (b, BelowSide)) \<and>
   (inRange aboveIdx \<and> inRange belowIdx \<and> totalVolume a > totalVolume b \<longrightarrow>
      chooseRow rows pocIndex aboveIdx belowIdx = Some (a, AboveSide)) \<and>
   (inRange aboveIdx \<and> inRange belowIdx \<and> totalVolume b > totalVolume a \<longrightarrow>
      chooseRow rows pocIndex aboveIdx belowIdx = Some (b, BelowSide)) \<and>
   (inRange aboveIdx \<and> inRange belowIdx \<and> totalVolume a = totalVolume b \<and>
      pocIndex - aboveIdx < belowIdx - pocIndex \<longrightarrow>
      chooseRow rows pocIndex aboveIdx belowIdx = Some (a, AboveSide)) \<and>
   (inRange aboveIdx \<and> inRange belowIdx \<and> totalVolume a = totalVolume b \<and>
      belowIdx - pocIndex < pocIndex - aboveIdx \<longrightarrow>
      chooseRow rows pocIndex aboveIdx belowIdx = Some (b, BelowSide)) \<and>
   (inRange aboveIdx \<and> inRange belowIdx \<and> totalVolume a = totalVolume b \<and>
      pocIndex - aboveIdx = belowIdx - pocIndex \<longrightarrow>
      chooseRow rows pocIndex aboveIdx belowIdx = Some (a, AboveSide))"
  unfolding inRange_def a_def b_def
  by (simp add: chooseRow_def row_at_def Let_def)

theorem chooseRow_rules_witness:
  "chooseRow exampleRows 2 1 3 = Some (exampleRows ! 1, AboveSide) \<and>
   chooseRow exampleRows 2 0 3 = Some (exampleRows ! 3, BelowSide) \<and>
   chooseRow exampleRows 2 0 4 = Some (exampleRows ! 4, BelowSide) \<and>
   chooseRow exampleRows 4 3 5 = Some (exampleRows ! 3, AboveSide)"
proof -
  have len: "length exampleRows = 5"
    by (simp add: exampleRows_def)
  have vol: "totalVolume (exampleRows ! 0) = 4" "totalVolume (exampleRows ! 1) = 4"
    "totalVolume (exampleRows ! 3) = 4" "totalVolume (exampleRows ! 4) = 10"
    by (simp_all add: exampleRows_def)
  from chooseRow_rules [of 1 exampleRows 3 2] len vol
  have a: "chooseRow exampleRows 2 1 3 = Some (exampleRows ! 1, AboveSide)"
    by simp
  from chooseRow_rules [of 0 exampleRows 3 2] len vol
  have b: "chooseRow exampleRows 2 0 3 = Some (exampleRows ! 3, BelowSide)"
    by simp
  from chooseRow_rules [of 0 exampleRows 4 2] len vol
  have c: "chooseRow exampleRows 2 0 4 = Some (exampleRows ! 4, BelowSide)"
    by simp
  from chooseRow_rules [of 3 exampleRows 5 4] len vol
  have d: "chooseRow exampleRows 4 3 5 = Some (exampleRows ! 3, AboveSide)"
    by simp
  from a b c d show ?thesis by simp
qed

subsection \<open>The expansion loop of the value area\<close>

lemma rows_wf_nth: "rows_wf rows \<Longrightarrow> i < length rows \<Longrightarrow> index (rows ! i) = i"
  by (metis rows_wf_def length_map nth_map nth_upt add_0)

lemma rows_wf_distinct: "rows_wf rows \<Longrightarrow> distinct rows"
  by (metis rows_wf_def distinct_map distinct_upt)

lemma indexOf_from_nth:
  "distinct xs \<Longrightarrow> i < length xs \<Longrightarrow> indexOf_from xs (xs ! i) k = k + int i"
proof (induction xs arbitrary: i k)
  case Nil
  then show ?case by simp
next
  case (Cons y ys)
  show ?case
  proof (cases i)
    case 0
    then show ?thesis by simp
  next
    case (Suc j)
    with Cons.prems have "ys ! j \<noteq> y" by auto
    with Cons Suc show ?thesis by simp
  qed
qed

lemma indexOf_wf:
  assumes "rows_wf rows" and "poc \<in> set rows"
  shows "indexOf rows poc = int (index poc)" and "index poc < length rows" and "rows ! index poc = poc"
proof -
  from assms(2) obtain i where i: "i < length rows" "rows ! i = poc"
    by (auto simp add: in_set_conv_nth)
  with assms(1) have idx: "index poc = i"
    using rows_wf_nth by blast
  from indexOf_from_nth [OF rows_wf_distinct [OF assms(1)] i(1), of 0] i(2) idx
  show "indexOf rows poc = int (index poc)"
    by (simp add: indexOf_def)
  from i idx show "index poc < length rows" and "rows ! index poc = poc"
    by simp_all
qed

lemma va_trace_invariant:
  "P st \<Longrightarrow> (\<forall>s s'. P s \<longrightarrow> va_step rows p t s = Some s' \<longrightarrow> P s') \<Longrightarrow>
   \<forall>s \<in> set (va_trace rows p t st). P s"
proof (induction rows p t st rule: va_trace.induct)
  case (1 rows pocIndex targetVolume st)
  show ?case
  proof (cases "va_step rows pocIndex targetVolume st")
    case None
    with "1.prems" show ?thesis
      by (subst va_trace.simps) simp
  next
    case (Some st')
    with "1.prems" have "P st'" by blast
    from "1.IH" [OF Some this "1.prems"(2)]
    have "\<forall>s \<in> set (va_trace rows pocIndex targetVolume st'). P s" .
    with "1.prems" Some show ?thesis
      by (subst va_trace.simps) simp
  qed
qed

lemma va_trace_nonempty: "va_trace rows p t st \<noteq> []"
  by (subst va_trace.simps) (simp split: option.splits)



lemma chooseRow_Some:
  assumes "chooseRow rows p a b = Some (r, sd)"
  shows "(sd = AboveSide \<and> 0 \<le> a \<and> a < int (length rows) \<and> r = rows ! nat a) \<or>
         (sd = BelowSide \<and> 0 \<le> b \<and> b < int (length rows) \<and> r = rows ! nat b)"
  using assms
  by (auto simp add: chooseRow_def row_at_def Let_def split: if_splits option.splits)

lemma va_step_Some:
  assumes "va_step rows p t s = Some s'"
  shows "\<exists>r sd. chooseRow rows p (aboveIndex s) (belowIndex s) = Some (r, sd) \<and>
           accumulatedVolume s < t \<and> accumulatedVolume s + totalVolume r \<le> t \<and>
           s' = \<lparr>accumulatedVolume = accumulatedVolume s + totalVolume r,
                 vaRows = set_add (index r) (vaRows s),
                 aboveIndex = (if sd = AboveSide then aboveIndex s - 1 else aboveIndex s),
                 belowIndex = (if sd = AboveSide then belowIndex s else belowIndex s + 1)\<rparr>"
proof -
  from assms have c: "accumulatedVolume s < t"
    by (auto simp add: va_step_def split: if_splits)
  from assms obtain r sd where ch: "chooseRow rows p (aboveIndex s) (belowIndex s) = Some (r, sd)"
    by (auto simp add: va_step_def split: if_splits option.splits)
  from assms ch have le: "accumulatedVolume s + totalVolume r \<le> t"
    by (auto simp add: va_step_def split: if_splits)
  from assms ch have "s' = \<lparr>accumulatedVolume = accumulatedVolume s + totalVolume r,
                 vaRows = set_add (index r) (vaRows s),
                 aboveIndex = (if sd = AboveSide then aboveIndex s - 1 else aboveIndex s),
                 belowIndex = (if sd = AboveSide then belowIndex s else belowIndex s + 1)\<rparr>"
    by (simp add: va_step_def split: if_splits)
  with c ch le show ?thesis by blast
qed


lemma set_set_add: "set (set_add x xs) = insert x (set xs)"
  by (auto simp add: set_add_def)

lemma distinct_set_add: "distinct xs \<Longrightarrow> distinct (set_add x xs)"
  by (simp add: set_add_def)

lemma cursors_ok_step:
  assumes wf: "rows_wf rows" and ok: "cursors_ok (length rows) p s"
    and step: "va_step rows (int p) t s = Some s'"
  shows "cursors_ok (length rows) p s'"
proof -
  from va_step_Some [OF step] obtain r sd where
    ch: "chooseRow rows (int p) (aboveIndex s) (belowIndex s) = Some (r, sd)"
    and s': "s' = \<lparr>accumulatedVolume = accumulatedVolume s + totalVolume r,
                 vaRows = set_add (index r) (vaRows s),
                 aboveIndex = (if sd = AboveSide then aboveIndex s - 1 else aboveIndex s),
                 belowIndex = (if sd = AboveSide then belowIndex s else belowIndex s + 1)\<rparr>"
    by blast
  from ok have bounds: "- 1 \<le> aboveIndex s" "aboveIndex s < int p" "int p < belowIndex s"
      "belowIndex s \<le> int (length rows)"
    and set: "set (vaRows s) = {nat (aboveIndex s + 1) .. nat (belowIndex s - 1)}"
    and dist: "distinct (vaRows s)"
    by (simp_all add: cursors_ok_def)
  from chooseRow_Some [OF ch] show ?thesis
  proof
    assume a: "sd = AboveSide \<and> 0 \<le> aboveIndex s \<and> aboveIndex s < int (length rows) \<and>
        r = rows ! nat (aboveIndex s)"
    then have "nat (aboveIndex s) < length rows" by linarith
    with a have idx: "index r = nat (aboveIndex s)"
      using rows_wf_nth [OF wf, of "nat (aboveIndex s)"] by simp
    from a have suc: "nat (aboveIndex s + 1) = Suc (nat (aboveIndex s))"
      by linarith
    from a bounds have le: "nat (aboveIndex s) \<le> nat (belowIndex s - 1)"
      by linarith
    have "set (vaRows s') = {nat (aboveIndex s) .. nat (belowIndex s - 1)}"
      unfolding s' using atLeastAtMost_insertL [OF le]
      by (simp add: set_set_add idx set suc)
    moreover have "distinct (vaRows s')"
      unfolding s' using dist by (simp add: distinct_set_add)
    moreover have "aboveIndex s' = aboveIndex s - 1" and "belowIndex s' = belowIndex s"
      unfolding s' using a by simp_all
    ultimately show ?thesis
      using a bounds by (simp add: cursors_ok_def)
  next
    assume b: "sd = BelowSide \<and> 0 \<le> belowIndex s \<and> belowIndex s < int (length rows) \<and>
        r = rows ! nat (belowIndex s)"
    then have "nat (belowIndex s) < length rows" by linarith
    with b have idx: "index r = nat (belowIndex s)"
      using rows_wf_nth [OF wf, of "nat (belowIndex s)"] by simp
    from b bounds have suc: "nat (belowIndex s) = Suc (nat (belowIndex s - 1))"
      by linarith
    from bounds have le: "nat (aboveIndex s + 1) \<le> Suc (nat (belowIndex s - 1))"
      by linarith
    have "set (vaRows s') = {nat (aboveIndex s + 1) .. nat (belowIndex s)}"
      unfolding s' using atLeastAtMostSuc_conv [OF le]
      by (simp add: set_set_add idx set suc)
    moreover have "distinct (vaRows s')"
      unfolding s' using dist by (simp add: distinct_set_add)
    moreover have "aboveIndex s' = aboveIndex s" and "belowIndex s' = belowIndex s + 1"
      unfolding s' using b by simp_all
    ultimately show ?thesis
      using b bounds by (simp add: cursors_ok_def)
  qed
qed

lemma cursors_ok_start:
  assumes "rows_wf rows" and "poc \<in> set rows"
  shows "cursors_ok (length rows) (index poc) (va_start rows poc)"
  using indexOf_wf [OF assms]
  by (auto simp add: cursors_ok_def va_start_def)

lemma expansionStates_cursors_ok:
  assumes "rows_wf rows" and "poc \<in> set rows"
  shows "\<forall>s \<in> set (expansionStates rows poc v). cursors_ok (length rows) (index poc) s"
  unfolding expansionStates_def indexOf_wf(1) [OF assms]
  using cursors_ok_start [OF assms] cursors_ok_step [OF assms(1)]
  by (intro va_trace_invariant [where P = "cursors_ok (length rows) (index poc)"]) blast+

lemma expansionStates_last:
  "last (expansionStates rows poc v) \<in> set (expansionStates rows poc v)"
  by (simp add: expansionStates_def va_trace_nonempty)

lemma map_filter_Some: "List.map_filter (\<lambda>x. x) (map Some ys) = ys"
  by (induction ys) (simp_all add: List.map_filter_simps)

lemma sortByPriceLevelDesc_defined:
  "sortByPriceLevelDesc (map Some ys) = map Some (sort_key (\<lambda>r. - priceLevel r) ys)"
  by (simp add: sortByPriceLevelDesc_def map_filter_Some)

lemma map_at_index:
  "\<forall>i \<in> set xs. i < length rows \<Longrightarrow> map (at_index rows) xs = map Some (map ((!) rows) xs)"
  by (induction xs) (simp_all add: at_index_def)

lemma sorted_key_hd:
  assumes "sorted (map k xs)" and "x \<in> set xs"
  shows "k (hd xs) \<le> k x"
  using assms by (cases xs) auto

lemma sorted_key_last:
  assumes "sorted (map k xs)" and "x \<in> set xs"
  shows "k x \<le> k (last xs)"
proof -
  from assms(2) have ne: "xs \<noteq> []" by auto
  then have xs: "xs = butlast xs @ [last xs]" by simp
  from assms(1) have "sorted (map k (butlast xs) @ [k (last xs)])"
    by (subst (asm) xs) simp
  then have "\<forall>y \<in> set (butlast xs). k y \<le> k (last xs)"
    by (auto simp add: sorted_append)
  moreover from assms(2) have "x \<in> set (butlast xs) \<or> x = last xs"
    by (subst (asm) xs) auto
  ultimately show ?thesis by auto
qed

lemma calculateValueArea_zero:
  "totalOfRows rows = 0 \<Longrightarrow>
   calculateValueArea rows poc v = \<lparr>va_vah = Some poc, va_val = Some poc, va_rows = [index poc]\<rparr>"
  by (simp add: calculateValueArea_def)

lemma final_cursors_ok:
  assumes "rows_wf rows" and "poc \<in> set rows"
  shows "cursors_ok (length rows) (index poc) (last (expansionStates rows poc v))"
  using expansionStates_cursors_ok [OF assms] expansionStates_last by blast

lemma final_indices:
  assumes "rows_wf rows" and "poc \<in> set rows"
  shows "\<forall>i \<in> set (vaRows (last (expansionStates rows poc v))). i < length rows"
  using final_cursors_ok [OF assms, of v] indexOf_wf(2) [OF assms]
  by (auto simp add: cursors_ok_def)

lemma calculateValueArea_nonzero:
  assumes "rows_wf rows" and "poc \<in> set rows" and "totalOfRows rows \<noteq> 0"
  shows "calculateValueArea rows poc v =
           \<lparr>va_vah = Some (hd (sortedArea rows poc v)),
            va_val = Some (last (sortedArea rows poc v)),
            va_rows = vaRows (last (expansionStates rows poc v))\<rparr>"
    and "set (sortedArea rows poc v) = (!) rows ` set (vaRows (last (expansionStates rows poc v)))"
    and "sortedArea rows poc v \<noteq> []"
proof -
  let ?f = "last (expansionStates rows poc v)"
  have arr: "sortByPriceLevelDesc (map (at_index rows) (vaRows ?f)) = map Some (sortedArea rows poc v)"
    by (simp only: map_at_index [OF final_indices [OF assms(1,2)]] sortByPriceLevelDesc_defined
        sortedArea_def)
  show set: "set (sortedArea rows poc v) = (!) rows ` set (vaRows ?f)"
    by (simp add: sortedArea_def)
  from final_cursors_ok [OF assms(1,2), of v] have "vaRows ?f \<noteq> []"
    by (auto simp add: cursors_ok_def)
  with set show ne: "sortedArea rows poc v \<noteq> []"
    by auto
  from ne obtain x xs where "sortedArea rows poc v = x # xs"
    by (cases "sortedArea rows poc v") auto
  with assms(3) arr show "calculateValueArea rows poc v =
           \<lparr>va_vah = Some (hd (sortedArea rows poc v)),
            va_val = Some (last (sortedArea rows poc v)),
            va_rows = vaRows ?f\<rparr>"
    by (simp add: calculateValueArea_def Let_def last_map)
qed






lemmas va_eval = expansionStates_def va_trace.simps va_step_def chooseRow_def row_at_def
  targetVolumeOf_def totalOfRows_def va_start_def indexOf_def set_add_def Let_def


lemma example_states:
  "last (expansionStates exampleRows (exampleRows ! 2) 70) =
     \<lparr>accumulatedVolume = 18, vaRows = [2, 1, 3], aboveIndex = 0, belowIndex = 4\<rparr>"
  by (simp add: va_eval exampleRows_def)

lemma exampleRows_wf: "rows_wf exampleRows"
  by (simp add: rows_wf_def exampleRows_def upt_rec)

lemma exampleRows_total: "totalOfRows exampleRows = 32"
  by (simp add: totalOfRows_def exampleRows_def)

lemma exampleRows_poc: "exampleRows ! 2 \<in> set exampleRows"
  by (simp add: exampleRows_def)







lemma valueArea_interval:
  assumes "rows_wf rows" and "sorted_wrt (<) (map priceLevel rows)" and "poc \<in> set rows"
  shows "\<exists>lo hi. lo \<le> index poc \<and> index poc \<le> hi \<and> hi < length rows \<and>
           set (va_rows (calculateValueArea rows poc v)) = {lo..hi} \<and>
           distinct (va_rows (calculateValueArea rows poc v)) \<and>
           va_val (calculateValueArea rows poc v) = Some (rows ! lo) \<and>
           va_vah (calculateValueArea rows poc v) = Some (rows ! hi)"
proof (cases "totalOfRows rows = 0")
  case True
  with indexOf_wf(2,3) [OF assms(1,3)] show ?thesis
    by (intro exI [of _ "index poc"]) (simp add: calculateValueArea_zero)
next
  case False
  let ?f = "last (expansionStates rows poc v)"
  let ?xs = "sortedArea rows poc v"
  let ?lo = "nat (aboveIndex ?f + 1)"
  let ?hi = "nat (belowIndex ?f - 1)"
  note ok = final_cursors_ok [OF assms(1,3), of v]
  note va = calculateValueArea_nonzero [OF assms(1,3) False, of v]
  from ok have bounds: "?lo \<le> index poc" "index poc \<le> ?hi" "?hi < length rows"
    and set: "set (vaRows ?f) = {?lo..?hi}" and dist: "distinct (vaRows ?f)"
    by (auto simp add: cursors_ok_def)
  have mono: "i < j \<Longrightarrow> j < length rows \<Longrightarrow> priceLevel (rows ! i) < priceLevel (rows ! j)" for i j
    using sorted_wrt_nth_less [OF assms(2), of i j] by simp
  have srt: "sorted (map (\<lambda>r. - priceLevel r) ?xs)"
    by (simp add: sortedArea_def)
  have mem_lo: "rows ! ?lo \<in> set ?xs" and mem_hi: "rows ! ?hi \<in> set ?xs"
    using bounds by (auto simp add: va(2) set)
  have "hd ?xs \<in> set ?xs" using va(3) by simp
  then obtain i where i: "?lo \<le> i" "i \<le> ?hi" "hd ?xs = rows ! i"
    by (auto simp add: va(2) set)
  from sorted_key_hd [OF srt mem_hi] have "priceLevel (rows ! ?hi) \<le> priceLevel (hd ?xs)"
    by simp
  with i mono [of i ?hi] bounds have hd: "hd ?xs = rows ! ?hi"
    by (cases "i = ?hi") auto
  have "last ?xs \<in> set ?xs" using va(3) by simp
  then obtain j where j: "?lo \<le> j" "j \<le> ?hi" "last ?xs = rows ! j"
    by (auto simp add: va(2) set)
  from sorted_key_last [OF srt mem_lo] have "priceLevel (last ?xs) \<le> priceLevel (rows ! ?lo)"
    by simp
  with j mono [of ?lo j] bounds have last: "last ?xs = rows ! ?lo"
    by (cases "j = ?lo") auto
  from bounds set dist hd last va(1) show ?thesis
    by (intro exI [of _ ?lo] exI [of _ ?hi]) simp
qed

text \<open>
  Claim C10. For rows that carry their position in \<open>index\<close> and ascend strictly in
  price level, and a POC among them, the \<open>valueAreaRows\<close> returned by
  \<open>calculateValueArea\<close> are, without repetition, the indices of one interval
  \<open>lo..hi\<close> that contains the POC's index; the returned VAL is the row at \<open>lo\<close> and
  the returned VAH the row at \<open>hi\<close>.
\<close>

theorem valueArea_contiguous:
  assumes "rows_wf rows" and "sorted_wrt (<) (map priceLevel rows)" and "poc \<in> set rows"
  shows "\<exists>lo hi. lo \<le> index poc \<and> index poc \<le> hi \<and> hi < length rows \<and>
           set (va_rows (calculateValueArea rows poc v)) = {lo..hi} \<and>
           distinct (va_rows (calculateValueArea rows poc v)) \<and>
           va_val (calculateValueArea rows poc v) = Some (rows ! lo) \<and>
           va_vah (calculateValueArea rows poc v) = Some (rows ! hi)"
  using assms by (rule valueArea_interval)

theorem valueArea_contiguous_witness:
  "rows_wf exampleRows \<and> sorted_wrt (<) (map priceLevel exampleRows) \<and>
   exampleRows ! 2 \<in> set exampleRows \<and>
   set (va_rows (calculateValueArea exampleRows (exampleRows ! 2) 70)) = {1..3} \<and>
   va_val (calculateValueArea exampleRows (exampleRows ! 2) 70) = Some (exampleRows ! 1) \<and>
   va_vah (calculateValueArea exampleRows (exampleRows ! 2) 70) = Some (exampleRows ! 3)"
proof -
  let ?va = "calculateValueArea exampleRows (exampleRows ! 2) 70"
  have asc: "sorted_wrt (<) (map priceLevel exampleRows)"
    by (simp add: exampleRows_def)
  have nz: "totalOfRows exampleRows \<noteq> 0"
    by (simp add: exampleRows_total)
  have "va_rows ?va = [2, 1, 3]"
    by (simp add: calculateValueArea_nonzero(1) [OF exampleRows_wf exampleRows_poc nz]
        example_states)
  then have rows: "set (va_rows ?va) = {1..3}"
    by auto
  from valueArea_contiguous [OF exampleRows_wf asc exampleRows_poc, of 70]
  obtain lo hi where lh: "set (va_rows ?va) = {lo..hi}"
    and val: "va_val ?va = Some (exampleRows ! lo)"
    and vah: "va_vah ?va = Some (exampleRows ! hi)"
    by blast
  from lh rows have "{lo..hi} = {1..3}" by simp
  then have "lo = 1 \<and> hi = 3"
    by (simp add: Icc_eq_Icc)
  with val vah rows asc exampleRows_wf exampleRows_poc show ?thesis by simp
qed

subsection \<open>Row construction and volume distribution\<close>

lemma rows_loop_eq:
  "rows_loop lo hi a n i = map (newRow lo hi a) [i..<nat \<lceil>n\<rceil>]"
proof (induction lo hi a n i rule: rows_loop.induct)
  case (1 lo hi a n i)
  show ?case
  proof (cases "real i < n")
    case True
    then have "int i < \<lceil>n\<rceil>" by (simp add: less_ceiling_iff)
    then have "i < nat \<lceil>n\<rceil>" by linarith
    with True "1.IH" show ?thesis
      by (subst rows_loop.simps) (simp add: upt_conv_Cons)
  next
    case False
    then have "\<lceil>n\<rceil> \<le> int i" by (simp add: ceiling_le_iff)
    then have "nat \<lceil>n\<rceil> \<le> i" by linarith
    with False show ?thesis
      by (subst rows_loop.simps) simp
  qed
qed

lemma numRowsFor_Finite: "numRowsFor r s = Finite n \<Longrightarrow> 1 \<le> n"
  by (auto simp add: numRowsFor_def atLeastOne_def Let_def split: js_count.splits if_splits)

lemma createPriceLevelRows_Some:
  assumes "createPriceLevelRows lo hi s = Some rows"
  shows "rows = [] \<or> (\<exists>n. 1 \<le> n \<and> rows = map (newRow lo hi ((hi - lo) / n)) [0..<nat \<lceil>n\<rceil>])"
  using assms numRowsFor_Finite [of "hi - lo" s]
  by (auto simp add: createPriceLevelRows_def Let_def rows_loop_eq split: js_count.splits)

lemma index_newRow: "index (newRow lo hi a i) = i"
  by (simp add: newRow_def Let_def)

lemma createPriceLevelRows_wf:
  assumes "createPriceLevelRows lo hi s = Some rows"
  shows "rows_wf rows"
  using createPriceLevelRows_Some [OF assms]
  by (auto simp add: rows_wf_def index_newRow map_idI comp_def)

lemma addBarToRow_fields:
  "index (addBarToRow b r) = index r" "priceLow (addBarToRow b r) = priceLow r"
  "priceHigh (addBarToRow b r) = priceHigh r" "priceLevel (addBarToRow b r) = priceLevel r"
  by (simp_all add: addBarToRow_def Let_def)

lemma distributeVolume_fields:
  "map index (distributeVolume bars rows) = map index rows"
  "map priceLow (distributeVolume bars rows) = map priceLow rows"
  "map priceHigh (distributeVolume bars rows) = map priceHigh rows"
  "length (distributeVolume bars rows) = length rows"
  unfolding distributeVolume_def
  by (induction bars arbitrary: rows; simp add: addBarToRow_fields comp_def)+

lemma distributeVolume_wf: "rows_wf rows \<Longrightarrow> rows_wf (distributeVolume bars rows)"
  by (simp add: rows_wf_def distributeVolume_fields)

lemma totalOfRows_sum: "totalOfRows rows = sum_list (map totalVolume rows)"
proof -
  have "foldl (\<lambda>sum r. sum + totalVolume r) a rows = a + sum_list (map totalVolume rows)" for a
    by (induction rows arbitrary: a) simp_all
  then show ?thesis by (simp add: totalOfRows_def)
qed

lemma totalVolume_addBarToRow:
  "totalVolume (addBarToRow b r) = totalVolume r + bar_volume b * overlapShare b r"
  by (simp add: addBarToRow_def overlapShare_def Let_def)

lemma overlap_as_clamp:
  fixes l h p q :: real
  assumes "l < h" and "p \<le> q"
  shows "(if rangesOverlap l h p q then calculateOverlapRatio l h p q else 0)
           = (max l (min h q) - max l (min h p)) / (h - l)"
proof -
  have num: "(if rangesOverlap l h p q then max 0 (min h q - max l p) else 0)
          = max l (min h q) - max l (min h p)"
    using assms by (simp add: rangesOverlap_def max_def min_def)
  have "(if rangesOverlap l h p q then calculateOverlapRatio l h p q else 0)
          = (if rangesOverlap l h p q then max 0 (min h q - max l p) else 0) / (h - l)"
    using assms(1) by (simp add: calculateOverlapRatio_def Let_def)
  then show ?thesis
    by (simp only: num)
qed

lemma clamp_min:
  fixes l h x hi :: real
  assumes "h \<le> hi"
  shows "max l (min h (min x hi)) = max l (min h x)"
  using assms by (simp add: max_def min_def)

lemma telescope:
  fixes f :: "nat \<Rightarrow> real"
  shows "sum_list (map (\<lambda>i. f (Suc i) - f i) [0..<N]) = f N - f 0"
  by (induction N) simp_all

lemma sum_list_divide:
  fixes g :: "'a \<Rightarrow> real"
  shows "sum_list (map (\<lambda>i. g i / c) xs) = sum_list (map g xs) / c"
  by (induction xs) (simp_all add: add_divide_distrib)

lemma tiling_share:
  fixes lo hi a l h :: real
  assumes bar: "lo \<le> l" "l < h" "h \<le> hi"
    and a: "0 \<le> a"
    and cover: "hi \<le> lo + real N * a"
    and inside: "\<forall>i < N. lo + real i * a \<le> hi"
  shows "sum_list (map (\<lambda>i.
            (if rangesOverlap l h (lo + real i * a) (min (lo + real i * a + a) hi)
             then calculateOverlapRatio l h (lo + real i * a) (min (lo + real i * a + a) hi)
             else 0)) [0..<N]) = 1"
proof -
  let ?c = "\<lambda>x. max l (min h x)"
  let ?f = "\<lambda>i. ?c (lo + real i * a)"
  have share: "(if rangesOverlap l h (lo + real i * a) (min (lo + real i * a + a) hi)
             then calculateOverlapRatio l h (lo + real i * a) (min (lo + real i * a + a) hi)
             else 0) = (?f (Suc i) - ?f i) / (h - l)" if "i < N" for i
  proof -
    from that inside a have "lo + real i * a \<le> min (lo + real i * a + a) hi"
      by simp
    from overlap_as_clamp [OF bar(2) this]
    show ?thesis
      by (simp add: clamp_min [OF bar(3)] algebra_simps)
  qed
  have "sum_list (map (\<lambda>i.
            (if rangesOverlap l h (lo + real i * a) (min (lo + real i * a + a) hi)
             then calculateOverlapRatio l h (lo + real i * a) (min (lo + real i * a + a) hi)
             else 0)) [0..<N])
        = sum_list (map (\<lambda>i. (?f (Suc i) - ?f i) / (h - l)) [0..<N])"
    by (rule arg_cong [where f = sum_list], rule map_cong) (simp_all add: share)
  also have "\<dots> = sum_list (map (\<lambda>i. ?f (Suc i) - ?f i) [0..<N]) / (h - l)"
    by (rule sum_list_divide)
  also have "\<dots> = (?f N - ?f 0) / (h - l)"
    by (simp only: telescope [of "\<lambda>i. max l (min h (lo + real i * a))" N])
  also have "?f N = h"
    using bar cover by (simp add: max_def min_def)
  also have "?f 0 = l"
    using bar by (simp add: max_def min_def)
  finally show ?thesis
    using bar(2) by simp
qed

lemma sum_addBarToRow:
  "sum_list (map totalVolume (map (addBarToRow b) rows))
     = sum_list (map totalVolume rows) + bar_volume b * sum_list (map (overlapShare b) rows)"
  by (induction rows) (simp_all add: totalVolume_addBarToRow distrib_left)

lemma tiled_addBar: "tiled lo hi a N rows \<Longrightarrow> tiled lo hi a N (map (addBarToRow b) rows)"
  by (simp add: tiled_def comp_def addBarToRow_fields)

lemma tiled_share:
  assumes t: "tiled lo hi a N rows"
    and bar: "lo \<le> bar_low b" "bar_low b < bar_high b" "bar_high b \<le> hi"
    and a: "0 \<le> a"
    and cover: "hi \<le> lo + real N * a"
    and inside: "\<forall>i < N. lo + real i * a \<le> hi"
  shows "sum_list (map (overlapShare b) rows) = 1"
proof -
  from t have len: "length rows = N"
    by (metis tiled_def length_map length_upt diff_zero)
  have low: "priceLow (rows ! i) = lo + real i * a" if "i < N" for i
  proof -
    from that len have "priceLow (rows ! i) = map priceLow rows ! i" by simp
    also from t that have "\<dots> = lo + real i * a" by (simp add: tiled_def)
    finally show ?thesis .
  qed
  have high: "priceHigh (rows ! i) = min (lo + real i * a + a) hi" if "i < N" for i
  proof -
    from that len have "priceHigh (rows ! i) = map priceHigh rows ! i" by simp
    also from t that have "\<dots> = min (lo + real i * a + a) hi" by (simp add: tiled_def)
    finally show ?thesis .
  qed
  have "map (overlapShare b) rows = map (\<lambda>i.
            (if rangesOverlap (bar_low b) (bar_high b) (lo + real i * a) (min (lo + real i * a + a) hi)
             then calculateOverlapRatio (bar_low b) (bar_high b) (lo + real i * a)
                    (min (lo + real i * a + a) hi)
             else 0)) [0..<N]"
    by (rule nth_equalityI) (simp_all add: len overlapShare_def low high)
  with tiling_share [OF bar a cover inside] show ?thesis by simp
qed

lemma overlapShare_flat: "\<not> bar_low b < bar_high b \<Longrightarrow> overlapShare b r = 0"
  by (simp add: overlapShare_def calculateOverlapRatio_def Let_def)

lemma flat_share:
  assumes "\<not> bar_low b < bar_high b"
  shows "sum_list (map (overlapShare b) rows) = 0"
  using assms by (induction rows) (simp_all add: overlapShare_flat)

lemma distributeVolume_flat:
  assumes "\<forall>b \<in> set bars. \<not> bar_low b < bar_high b"
  shows "sum_list (map totalVolume (distributeVolume bars rows)) = sum_list (map totalVolume rows)"
  using assms
proof (induction bars arbitrary: rows)
  case Nil
  then show ?case by (simp add: distributeVolume_def)
next
  case (Cons b bars)
  have step: "distributeVolume (b # bars) rows = distributeVolume bars (map (addBarToRow b) rows)"
    by (simp add: distributeVolume_def)
  from Cons.prems have "sum_list (map (overlapShare b) rows) = 0"
    by (simp add: flat_share)
  then have "sum_list (map totalVolume (map (addBarToRow b) rows)) = sum_list (map totalVolume rows)"
    by (simp only: sum_addBarToRow mult_zero_right add_0_right)
  with Cons.IH [of "map (addBarToRow b) rows"] Cons.prems show ?case
    by (simp only: step) simp
qed

lemma distributeVolume_sum:
  assumes "tiled lo hi a N rows"
    and "\<forall>b \<in> set bars. lo \<le> bar_low b \<and> bar_high b \<le> hi"
    and "0 \<le> a" and "hi \<le> lo + real N * a" and "\<forall>i < N. lo + real i * a \<le> hi"
  shows "sum_list (map totalVolume (distributeVolume bars rows))
           = sum_list (map totalVolume rows)
             + sum_list (map bar_volume (filter (\<lambda>b. bar_low b < bar_high b) bars))"
  using assms(1,2)
proof (induction bars arbitrary: rows)
  case Nil
  then show ?case by (simp add: distributeVolume_def)
next
  case (Cons b bars)
  from Cons.prems have bar: "lo \<le> bar_low b" "bar_high b \<le> hi"
    by simp_all
  have step: "distributeVolume (b # bars) rows = distributeVolume bars (map (addBarToRow b) rows)"
    by (simp add: distributeVolume_def)
  from Cons.IH [OF tiled_addBar [OF Cons.prems(1)]] Cons.prems(2)
  have rest: "sum_list (map totalVolume (distributeVolume bars (map (addBarToRow b) rows)))
          = sum_list (map totalVolume (map (addBarToRow b) rows))
            + sum_list (map bar_volume (filter (\<lambda>b. bar_low b < bar_high b) bars))"
    by simp
  show ?case
  proof (cases "bar_low b < bar_high b")
    case True
    have "sum_list (map totalVolume (map (addBarToRow b) rows))
          = sum_list (map totalVolume rows) + bar_volume b"
      using tiled_share [OF Cons.prems(1) bar(1) True bar(2) assms(3,4,5)]
      by (simp only: sum_addBarToRow mult_1_right)
    with rest True show ?thesis
      by (simp only: step) simp
  next
    case False
    have "sum_list (map totalVolume (map (addBarToRow b) rows)) = sum_list (map totalVolume rows)"
      using flat_share [OF False, of rows]
      by (simp only: sum_addBarToRow mult_zero_right add_0_right)
    with rest False show ?thesis
      by (simp only: step) simp
  qed
qed

lemma numRowsFor_not_NaN: "r \<noteq> 0 \<Longrightarrow> numRowsFor r s \<noteq> NaN"
  by (auto simp add: numRowsFor_def atLeastOne_def tickRows_def percentageRows_def Let_def
      split: js_count.splits if_splits)

lemma numRowsFor_not_NegInfinity: "numRowsFor r s \<noteq> NegInfinity"
  by (auto simp add: numRowsFor_def atLeastOne_def Let_def split: js_count.splits if_splits)

lemma createPriceLevelRows_tiled:
  assumes some: "createPriceLevelRows lo hi s = Some rows" and lt: "lo < hi"
  shows "\<exists>a N. tiled lo hi a N rows \<and> 0 \<le> a \<and> hi \<le> lo + real N * a \<and>
           (\<forall>i < N. lo + real i * a \<le> hi) \<and> (\<forall>r \<in> set rows. totalVolume r = 0)"
proof -
  from lt have "hi - lo \<noteq> 0" by simp
  from numRowsFor_not_NaN [OF this, of s] numRowsFor_not_NegInfinity [of "hi - lo" s] some
  obtain n where n: "numRowsFor (hi - lo) s = Finite n"
    and rows: "rows = map (newRow lo hi ((hi - lo) / n)) [0..<nat \<lceil>n\<rceil>]"
    by (auto simp add: createPriceLevelRows_def Let_def rows_loop_eq split: js_count.splits)
  from numRowsFor_Finite [OF n] have n1: "1 \<le> n" .
  let ?a = "(hi - lo) / n" and ?N = "nat \<lceil>n\<rceil>"
  have na: "n * ?a = hi - lo" using n1 by simp
  have a0: "0 \<le> ?a" using lt n1 by simp
  have "tiled lo hi ?a ?N rows"
    by (simp add: tiled_def rows comp_def newRow_def Let_def)
  moreover have "hi \<le> lo + real ?N * ?a"
  proof -
    have "n \<le> real ?N" by linarith
    then have "n * ?a \<le> real ?N * ?a" using a0 by (rule mult_right_mono)
    with na show ?thesis by linarith
  qed
  moreover have "\<forall>i < ?N. lo + real i * ?a \<le> hi"
  proof (intro allI impI)
    fix i assume "i < ?N"
    then have "int i < \<lceil>n\<rceil>" by linarith
    then have "real i \<le> n" by (simp add: less_ceiling_iff)
    then have "real i * ?a \<le> n * ?a" using a0 by (rule mult_right_mono)
    with na show "lo + real i * ?a \<le> hi" by linarith
  qed
  moreover have "\<forall>r \<in> set rows. totalVolume r = 0"
    by (auto simp add: rows newRow_def Let_def)
  ultimately show ?thesis using a0 by blast
qed

lemma createPriceLevelRows_fresh:
  assumes "createPriceLevelRows lo hi s = Some rows"
  shows "sum_list (map totalVolume rows) = 0"
proof -
  from createPriceLevelRows_Some [OF assms] have "\<forall>r \<in> set rows. totalVolume r = 0"
    by (auto simp add: newRow_def Let_def)
  then show ?thesis by (induction rows) simp_all
qed

lemma distributeVolume_total:
  assumes "createPriceLevelRows lo hi settings = Some rows"
    and "\<forall>b \<in> set bars. lo \<le> bar_low b \<and> bar_high b \<le> hi"
  shows "totalOfRows (distributeVolume bars rows)
           = sum_list (map bar_volume (filter (\<lambda>b. bar_low b < bar_high b) bars))"
proof (cases "\<exists>b \<in> set bars. bar_low b < bar_high b")
  case False
  then have flat: "\<forall>b \<in> set bars. \<not> bar_low b < bar_high b" by blast
  then have "filter (\<lambda>b. bar_low b < bar_high b) bars = []"
    by (simp add: filter_empty_conv)
  with distributeVolume_flat [OF flat, of rows] createPriceLevelRows_fresh [OF assms(1)]
  show ?thesis
    by (simp add: totalOfRows_sum)
next
  case True
  then obtain b where "b \<in> set bars" "bar_low b < bar_high b" by blast
  with assms(2) have "lo < hi" by fastforce
  from createPriceLevelRows_tiled [OF assms(1) this] obtain a N where
    t: "tiled lo hi a N rows" "0 \<le> a" "hi \<le> lo + real N * a" "\<forall>i < N. lo + real i * a \<le> hi"
    by blast
  from distributeVolume_sum [OF t(1) assms(2) t(2,3,4)] createPriceLevelRows_fresh [OF assms(1)]
  show ?thesis
    by (simp add: totalOfRows_sum)
qed

lemma distributeVolume_total_all:
  assumes "createPriceLevelRows lo hi settings = Some rows"
    and "\<forall>b \<in> set bars. lo \<le> bar_low b \<and> bar_high b \<le> hi"
    and "\<forall>b \<in> set bars. bar_low b < bar_high b"
  shows "totalOfRows (distributeVolume bars rows) = sum_list (map bar_volume bars)"
proof -
  from assms(3) have "filter (\<lambda>b. bar_low b < bar_high b) bars = bars"
    by (simp add: filter_id_conv)
  with distributeVolume_total [OF assms(1,2)] show ?thesis by simp
qed

text \<open>
  Claim C3, as the code has it. For rows made by \<open>createPriceLevelRows\<close> for a range
  from \<open>lo\<close> to \<open>hi\<close> and every list of bars that lie within that range, the row
  volumes after \<open>distributeVolume\<close> sum to the sum of the volumes of the bars with
  \<open>low < high\<close> (in exact arithmetic): a bar with \<open>high = low\<close> is given to no row and
  its volume is missing from the total. When every bar has \<open>low < high\<close> the row
  volumes sum to the sum of all bar volumes.
\<close>

theorem distributeVolume_conservation:
  assumes "createPriceLevelRows lo hi settings = Some rows"
    and "\<forall>b \<in> set bars. lo \<le> bar_low b \<and> bar_high b \<le> hi"
  shows "totalOfRows (distributeVolume bars rows)
           = sum_list (map bar_volume (filter (\<lambda>b. bar_low b < bar_high b) bars)) \<and>
         ((\<forall>b \<in> set bars. bar_low b < bar_high b) \<longrightarrow>
            totalOfRows (distributeVolume bars rows) = sum_list (map bar_volume bars))"
proof
  show "totalOfRows (distributeVolume bars rows)
           = sum_list (map bar_volume (filter (\<lambda>b. bar_low b < bar_high b) bars))"
    using assms by (rule distributeVolume_total)
  show "(\<forall>b \<in> set bars. bar_low b < bar_high b) \<longrightarrow>
            totalOfRows (distributeVolume bars rows) = sum_list (map bar_volume bars)"
    using distributeVolume_total_all [OF assms] by blast
qed

lemma scenario_rows: "createPriceLevelRows 8 12 scenarioSettings = Some scenarioRows"
  by (simp add: createPriceLevelRows_def numRowsFor_def atLeastOne_def scenarioSettings_def
      scenarioRows_def rows_loop.simps newRow_def Let_def)

theorem distributeVolume_conservation_witness:
  "createPriceLevelRows 8 12 scenarioSettings = Some scenarioRows \<and>
   list_all (\<lambda>b. 8 \<le> bar_low b \<and> bar_high b \<le> 12) scenarioBars \<and>
   list_all (\<lambda>b. bar_low b < bar_high b) scenarioBars \<and>
   totalOfRows (distributeVolume scenarioBars scenarioRows) = 300 \<and>
   list_all (\<lambda>b. 8 \<le> bar_low b \<and> bar_high b \<le> 12) flatBars \<and>
   totalOfRows (distributeVolume flatBars scenarioRows)
     = sum_list (map bar_volume (filter (\<lambda>b. bar_low b < bar_high b) flatBars)) \<and>
   sum_list (map bar_volume (filter (\<lambda>b. bar_low b < bar_high b) flatBars)) = 100"
proof -
  have in_range: "\<forall>b \<in> set scenarioBars. 8 \<le> bar_low b \<and> bar_high b \<le> 12"
    by (simp add: scenarioBars_def)
  have wide: "\<forall>b \<in> set scenarioBars. bar_low b < bar_high b"
    by (simp add: scenarioBars_def)
  have total: "sum_list (map bar_volume scenarioBars) = 300"
    by (simp add: scenarioBars_def)
  from distributeVolume_conservation [OF scenario_rows in_range] wide total
  have first: "totalOfRows (distributeVolume scenarioBars scenarioRows) = 300"
    by simp
  have flat_range: "\<forall>b \<in> set flatBars. 8 \<le> bar_low b \<and> bar_high b \<le> 12"
    by (simp add: flatBars_def)
  from distributeVolume_conservation [OF scenario_rows flat_range]
  have second: "totalOfRows (distributeVolume flatBars scenarioRows)
     = sum_list (map bar_volume (filter (\<lambda>b. bar_low b < bar_high b) flatBars))"
    by blast
  have third: "sum_list (map bar_volume (filter (\<lambda>b. bar_low b < bar_high b) flatBars)) = 100"
    by (simp add: flatBars_def)
  from in_range wide flat_range first second third scenario_rows show ?thesis
    by (simp add: list_all_iff)
qed

text \<open>
  Claim C3 as stated fails on a bar without range: its overlap ratio is 0 in every
  row, and its volume of 50 is lost from the total.
\<close>

theorem distributeVolume_conservation_counterexample:
  "createPriceLevelRows (profileLowOf (hd flatBars) (tl flatBars))
       (profileHighOf (hd flatBars) (tl flatBars)) scenarioSettings = Some scenarioRows \<and>
   totalOfRows (distributeVolume flatBars scenarioRows) = 100 \<and>
   sum_list (map bar_volume flatBars) = 150 \<and>
   \<not> totalOfRows (distributeVolume flatBars scenarioRows) = sum_list (map bar_volume flatBars)"
proof -
  have "profileLowOf (hd flatBars) (tl flatBars) = 8"
    and "profileHighOf (hd flatBars) (tl flatBars) = 12"
    by (simp_all add: flatBars_def profileLowOf_def profileHighOf_def)
  moreover have "totalOfRows (distributeVolume flatBars scenarioRows) = 100"
    by (simp add: totalOfRows_def distributeVolume_def flatBars_def scenarioRows_def
        addBarToRow_def rangesOverlap_def calculateOverlapRatio_def Let_def)
  moreover have "sum_list (map bar_volume flatBars) = 150"
    by (simp add: flatBars_def)
  ultimately show ?thesis
    using scenario_rows by simp
qed

subsection \<open>calculateProfile and the sampling of calculateDeveloping\<close>

lemma foldl_pickMax_mem: "foldl pickMax m xs \<in> insert m (set xs)"
  by (induction xs arbitrary: m) (auto simp add: pickMax_def)

lemma calculatePOC_mem:
  assumes "rows \<noteq> []"
  shows "\<exists>poc. calculatePOC (Some rows) = Inr poc \<and> poc \<in> set rows"
proof -
  from assms obtain r0 rest where rows: "rows = r0 # rest" by (cases rows) auto
  from foldl_pickMax_mem [of r0 rest] show ?thesis
    by (simp add: rows calculatePOC_Cons)
qed

lemma valueArea_defined:
  assumes "rows_wf rows" and "poc \<in> set rows"
  shows "\<exists>h l. va_vah (calculateValueArea rows poc v) = Some h \<and>
               va_val (calculateValueArea rows poc v) = Some l"
proof (cases "totalOfRows rows = 0")
  case True
  then show ?thesis by (simp add: calculateValueArea_zero)
next
  case False
  from calculateValueArea_nonzero(1) [OF assms False, of v] show ?thesis by simp
qed

lemma calculateProfile_returns:
  assumes off: "\<not> developingOn (mergeSettings tc cfg)"
    and rows0: "createPriceLevelRows (profileLowOf b bs) (profileHighOf b bs) (mergeSettings tc cfg)
                  = Some rows0"
    and ne: "rows0 \<noteq> []"
  shows "\<exists>p. calculateProfile tc (Some (b # bs)) cfg = Some (Inr p)"
proof -
  let ?rows = "distributeVolume (b # bs) rows0"
  from createPriceLevelRows_wf [OF rows0] have wf: "rows_wf ?rows"
    by (rule distributeVolume_wf)
  from ne have "?rows \<noteq> []"
    using distributeVolume_fields(4) [of "b # bs" rows0] by auto
  from calculatePOC_mem [OF this] obtain poc where
    poc: "calculatePOC (Some ?rows) = Inr poc" "poc \<in> set ?rows"
    by blast
  from valueArea_defined [OF wf poc(2), of "vaPercentageOf (mergeSettings tc cfg)"]
  obtain h l where
    "va_vah (calculateValueArea ?rows poc (vaPercentageOf (mergeSettings tc cfg))) = Some h"
    "va_val (calculateValueArea ?rows poc (vaPercentageOf (mergeSettings tc cfg))) = Some l"
    by blast
  with off rows0 poc(1) show ?thesis
    by (subst calculateProfile.simps) (simp add: Let_def)
qed

lemma rows_loop_nonempty: "1 \<le> n \<Longrightarrow> rows_loop lo hi a n 0 \<noteq> []"
  by (subst rows_loop.simps) simp

lemma createPriceLevelRows_Number:
  assumes "rowsLayout s \<noteq> Some ''Tick''" and "rowsLayout s \<noteq> Some ''Percentage''"
  shows "\<exists>rows0. createPriceLevelRows lo hi s = Some rows0 \<and> rows0 \<noteq> []"
proof -
  let ?rs = "case rowSize s of None \<Rightarrow> 200 | Some r \<Rightarrow> r"
  from assms have "numRowsFor (hi - lo) s = Finite (max 1 ?rs)"
    by (auto simp add: numRowsFor_def atLeastOne_def Let_def split: option.splits)
  then show ?thesis
    by (simp add: createPriceLevelRows_def Let_def rows_loop_nonempty)
qed

text \<open>
  Claim C7. \<open>calculateProfile\<close> throws when the bar array is missing or empty, and
  \<open>calculatePOC\<close> throws in the same way when the row array is missing or empty: an
  \<open>Error\<close> whose message says that no data, or no rows, were provided. For a
  non-empty bar array \<open>calculateProfile\<close> does not throw that error, and for a
  non-empty row array \<open>calculatePOC\<close> returns a row.
\<close>

theorem emptyInput_errors:
  "calculateProfile tc None cfg = Some (Inl (Error ''No data provided for FRVP calculation'')) \<and>
   calculateProfile tc (Some []) cfg = Some (Inl (Error ''No data provided for FRVP calculation'')) \<and>
   calculatePOC None = Inl (Error ''No rows provided for POC calculation'') \<and>
   calculatePOC (Some []) = Inl (Error ''No rows provided for POC calculation'') \<and>
   (bars \<noteq> [] \<longrightarrow>
      calculateProfile tc (Some bars) cfg
        \<noteq> Some (Inl (Error ''No data provided for FRVP calculation''))) \<and>
   (rows \<noteq> [] \<longrightarrow> (\<exists>poc. calculatePOC (Some rows) = Inr poc))"
proof (intro conjI impI)
  show "calculateProfile tc None cfg = Some (Inl (Error ''No data provided for FRVP calculation''))"
    by (subst calculateProfile.simps) simp
  show "calculateProfile tc (Some []) cfg = Some (Inl (Error ''No data provided for FRVP calculation''))"
    by (subst calculateProfile.simps) simp
  show "calculatePOC None = Inl (Error ''No rows provided for POC calculation'')"
    by (simp add: calculatePOC_def)
  show "calculatePOC (Some []) = Inl (Error ''No rows provided for POC calculation'')"
    by (simp add: calculatePOC_def)
next
  assume "rows \<noteq> []"
  from calculatePOC_mem [OF this] show "\<exists>poc. calculatePOC (Some rows) = Inr poc"
    by blast
next
  assume "bars \<noteq> []"
  then obtain b bs where bars: "bars = b # bs" by (cases bars) auto
  let ?err = "Inl (Error ''No data provided for FRVP calculation'') :: js_error + profile"
  let ?s = "mergeSettings tc cfg"
  let ?created = "createPriceLevelRows (profileLowOf b bs) (profileHighOf b bs) ?s"
  have poc: "calculatePOC rs \<noteq> Inl (Error ''No data provided for FRVP calculation'')" for rs
    by (simp add: calculatePOC_def split: option.splits list.splits)
  show "calculateProfile tc (Some bars) cfg \<noteq> Some ?err"
  proof (cases ?created)
    case None
    then show ?thesis
      unfolding bars by (subst calculateProfile.simps) (simp add: Let_def)
  next
    case (Some rows0)
    let ?rows = "distributeVolume (b # bs) rows0"
    show ?thesis
    proof (cases "calculatePOC (Some ?rows)")
      case (Inl e)
      with poc [of "Some ?rows"] have "e \<noteq> Error ''No data provided for FRVP calculation''"
        by auto
      with Some Inl show ?thesis
        unfolding bars by (subst calculateProfile.simps) (simp add: Let_def)
    next
      case (Inr pocRow)
      let ?va = "calculateValueArea ?rows pocRow (vaPercentageOf ?s)"
      let ?dev = "if developingOn ?s then map_option Some (calculateDeveloping tc (b # bs) ?s)
                  else Some None"
      have unfolded: "calculateProfile tc (Some (b # bs)) cfg =
          (case ?dev of
             None \<Rightarrow> None
           | Some dev \<Rightarrow>
               (case (va_vah ?va, va_val ?va) of
                  (Some vah, Some val) \<Rightarrow>
                    Some (Inr
                      \<lparr>p_rows = ?rows, p_poc = pocRow, p_vah = vah, p_val = val,
                       p_valueAreaRows = va_rows ?va,
                       profileHigh = profileHighOf b bs, profileLow = profileLowOf b bs,
                       developing = dev,
                       md_totalVolume = totalOfRows ?rows,
                       totalBars = length (b # bs),
                       priceRange = profileHighOf b bs - profileLowOf b bs,
                       rowCount = length ?rows\<rparr>)
                | _ \<Rightarrow> Some (Inl (TypeError ''priceLevel of undefined''))))"
        using Some Inr by (subst calculateProfile.simps) (simp add: Let_def)
      show ?thesis
        unfolding bars unfolded
        by (cases ?dev; cases "va_vah ?va"; cases "va_val ?va") simp_all
    qed
  qed
qed

theorem emptyInput_errors_witness:
  "scenarioBars \<noteq> [] \<and> scenarioRows \<noteq> [] \<and>
   calculateProfile defaultConfig (Some scenarioBars) scenarioSettings
     \<noteq> Some (Inl (Error ''No data provided for FRVP calculation'')) \<and>
   (\<exists>poc. calculatePOC (Some scenarioRows) = Inr poc)"
proof -
  have bars: "scenarioBars \<noteq> []"
    by (simp add: scenarioBars_def)
  have rows: "scenarioRows \<noteq> []"
    by (simp add: scenarioRows_def)
  from emptyInput_errors [of defaultConfig scenarioSettings scenarioBars scenarioRows] bars rows
  show ?thesis by blast
qed

lemma developingStep_pos: "1 \<le> developingStep n"
  by (simp add: developingStep_def)

lemma developing_loop_length:
  assumes ok: "\<forall>k. 1 \<le> k \<and> k \<le> length bars \<longrightarrow>
      (\<exists>p. calculateProfile tc (Some (take k bars)) (flagsOff s) = Some (Inr p))"
  shows "1 \<le> i \<Longrightarrow> \<exists>pts. developing_loop tc bars s i = Some pts \<and>
     length pts = (length bars + developingStep (length bars) - i) div developingStep (length bars)"
proof (induction i rule: measure_induct_rule [where f = "\<lambda>i. Suc (length bars) - i"])
  case (less i)
  let ?n = "length bars" and ?step = "developingStep (length bars)"
  have step: "1 \<le> ?step" by (rule developingStep_pos)
  show ?case
  proof (cases "i \<le> ?n")
    case False
    with step have "?n + ?step - i < ?step" by linarith
    then have "(?n + ?step - i) div ?step = 0" by simp
    with False show ?thesis
      by (subst developing_loop.simps) simp
  next
    case True
    with less.prems ok obtain p where
      p: "calculateProfile tc (Some (take i bars)) (flagsOff s) = Some (Inr p)"
      by blast
    from True step have "Suc ?n - (i + ?step) < Suc ?n - i" by simp
    from less.IH [OF this] less.prems obtain rest where
      rest: "developing_loop tc bars s (i + ?step) = Some rest"
        "length rest = (?n + ?step - (i + ?step)) div ?step"
      by auto
    have cnt: "(?n + ?step - i) div ?step = Suc ((?n - i) div ?step)"
    proof -
      from True have eq: "?n + ?step - i = (?n - i) + ?step" by simp
      from step have "?step \<noteq> 0" by simp
      then have "((?n - i) + ?step) div ?step = (?n - i) div ?step + 1"
        by (rule div_add_self2)
      then show ?thesis
        by (simp only: eq Suc_eq_plus1)
    qed
    have sub: "?n + ?step - (i + ?step) = ?n - i" by simp
    let ?pt = "\<lparr>timestamp = bar_time (last (take i bars)),
                 dev_poc = priceLevel (p_poc p),
                 dev_vah = priceLevel (p_vah p),
                 dev_val = priceLevel (p_val p)\<rparr>"
    have "developing_loop tc bars s i = Some ([?pt] @ rest)"
      using True p rest(1)
      by (subst developing_loop.simps) (simp add: Let_def)
    moreover have "length rest = (?n - i) div ?step"
      using rest(2) by (simp only: sub)
    then have "length ([?pt] @ rest) = (?n + ?step - i) div ?step"
      by (simp only: cnt) simp
    ultimately show ?thesis by blast
  qed
qed

lemma calculateDeveloping_length:
  assumes "\<forall>k. 1 \<le> k \<and> k \<le> length bars \<longrightarrow>
      (\<exists>p. calculateProfile tc (Some (take k bars)) (flagsOff s) = Some (Inr p))"
  shows "\<exists>pts. calculateDeveloping tc bars s = Some pts \<and>
     length pts = length bars div developingStep (length bars)"
  using developing_loop_length [OF assms developingStep_pos, of "length bars"]
  by (simp add: calculateDeveloping.simps)

lemma developingOn_flagsOff: "\<not> developingOn (mergeSettings tc (flagsOff s))"
  by (simp add: developingOn_def mergeSettings_def flagsOff_def orElse_def)

lemma rowsLayout_flagsOff:
  "rowsLayout (mergeSettings tc (flagsOff s)) = orElse (rowsLayout s) (rowsLayout tc)"
  by (simp add: mergeSettings_def flagsOff_def)

lemma calculateDeveloping_count:
  assumes "orElse (rowsLayout s) (rowsLayout tc) \<noteq> Some ''Tick''"
    and "orElse (rowsLayout s) (rowsLayout tc) \<noteq> Some ''Percentage''"
  shows "\<exists>pts. calculateDeveloping tc bars s = Some pts \<and>
     length pts = length bars div developingStep (length bars)"
proof (rule calculateDeveloping_length, intro allI impI)
  fix k assume k: "1 \<le> k \<and> k \<le> length bars"
  then obtain b bs where tk: "take k bars = b # bs"
    by (cases "take k bars") auto
  from createPriceLevelRows_Number [of "mergeSettings tc (flagsOff s)"] assms
  obtain rows0 where "createPriceLevelRows (profileLowOf b bs) (profileHighOf b bs)
      (mergeSettings tc (flagsOff s)) = Some rows0" "rows0 \<noteq> []"
    unfolding rowsLayout_flagsOff by blast
  from calculateProfile_returns [OF developingOn_flagsOff this]
  show "\<exists>p. calculateProfile tc (Some (take k bars)) (flagsOff s) = Some (Inr p)"
    by (simp add: tk)
qed

text \<open>
  Claim C9, at 51 bars. The step is \<open>max(1, floor(51 / 50)) = 1\<close>, every prefix is
  sampled with the developing flags off, and \<open>calculateDeveloping\<close> returns 51
  points, one more than the 50 that the claim and the comment in the code
  (\<open>Sample 50 points max\<close>) allow.
\<close>

theorem calculateDeveloping_51_samples:
  "\<exists>pts. calculateDeveloping defaultConfig (minuteSeries 51) developingSettings = Some pts
     \<and> length pts = 51 \<and> developingStep 51 = 1"
proof -
  have "orElse (rowsLayout developingSettings) (rowsLayout defaultConfig) \<noteq> Some ''Tick''"
    and "orElse (rowsLayout developingSettings) (rowsLayout defaultConfig) \<noteq> Some ''Percentage''"
    by (simp_all add: developingSettings_def orElse_def)
  from calculateDeveloping_count [OF this, of "minuteSeries 51"]
  show ?thesis
    by (simp add: developingStep_def minuteSeries_def)
qed

subsection \<open>The rows that calculateProfile hands to calculateValueArea\<close>

text \<open>
  The theorems on the value area above ask that the rows carry their position in
  \<open>index\<close>, that their price levels ascend strictly and that the POC is one of them,
  and the theorem on the distribution of volume asks that the bars lie within the
  profile range. The rows and the range that \<open>calculateProfile\<close> itself computes
  meet these conditions, so the conclusions hold of every profile it returns.
\<close>

lemma fold_max_init: "(a :: real) \<le> fold max xs a"
proof (induction xs arbitrary: a)
  case Nil
  show ?case by simp
next
  case (Cons y ys)
  have "a \<le> max y a" by simp
  also have "\<dots> \<le> fold max ys (max y a)" by (rule Cons.IH)
  finally show ?case by simp
qed

lemma fold_max_mem: "x \<in> set xs \<Longrightarrow> (x :: real) \<le> fold max xs a"
proof (induction xs arbitrary: a)
  case Nil
  then show ?case by simp
next
  case (Cons y ys)
  show ?case
  proof (cases "x = y")
    case True
    have "x \<le> max y a" using True by simp
    also have "\<dots> \<le> fold max ys (max y a)" by (rule fold_max_init)
    finally show ?thesis by simp
  next
    case False
    with Cons.prems have "x \<in> set ys" by simp
    from Cons.IH [OF this] show ?thesis by simp
  qed
qed

lemma fold_min_init: "fold min xs a \<le> (a :: real)"
proof (induction xs arbitrary: a)
  case Nil
  show ?case by simp
next
  case (Cons y ys)
  have "fold min ys (min y a) \<le> min y a" by (rule Cons.IH)
  also have "\<dots> \<le> a" by simp
  finally show ?case by simp
qed

lemma fold_min_mem: "x \<in> set xs \<Longrightarrow> fold min xs a \<le> (x :: real)"
proof (induction xs arbitrary: a)
  case Nil
  then show ?case by simp
next
  case (Cons y ys)
  show ?case
  proof (cases "x = y")
    case True
    have "fold min ys (min y a) \<le> min y a" by (rule fold_min_init)
    also have "\<dots> \<le> x" using True by simp
    finally show ?thesis by simp
  next
    case False
    with Cons.prems have "x \<in> set ys" by simp
    from Cons.IH [OF this] show ?thesis by simp
  qed
qed

lemma profile_range:
  assumes "x \<in> set (b # bs)"
  shows "profileLowOf b bs \<le> bar_low x" and "bar_high x \<le> profileHighOf b bs"
proof -
  from assms have "x = b \<or> x \<in> set bs" by auto
  then show "profileLowOf b bs \<le> bar_low x"
    unfolding profileLowOf_def
    using fold_min_init [of "map bar_low bs" "bar_low b"]
      fold_min_mem [of "bar_low x" "map bar_low bs" "bar_low b"]
    by auto
  from \<open>x = b \<or> x \<in> set bs\<close> show "bar_high x \<le> profileHighOf b bs"
    unfolding profileHighOf_def
    using fold_max_init [of "bar_high b" "map bar_high bs"]
      fold_max_mem [of "bar_high x" "map bar_high bs" "bar_high b"]
    by auto
qed

lemma priceLevel_newRow_mono:
  assumes "0 < a" and "i < j"
  shows "priceLevel (newRow lo hi a i) < priceLevel (newRow lo hi a j)"
proof -
  define x y where "x = real i * a" and "y = real j * a"
  from assms have "x < y" by (simp add: x_def y_def)
  then have "lo + x + min (lo + x + a) hi < lo + y + min (lo + y + a) hi"
    by (simp add: min_def)
  then show ?thesis
    by (simp add: newRow_def Let_def x_def y_def)
qed

lemma createPriceLevelRows_ascending:
  assumes some: "createPriceLevelRows lo hi s = Some rows" and lt: "lo < hi"
  shows "sorted_wrt (<) (map priceLevel rows)"
proof -
  from lt have "hi - lo \<noteq> 0" by simp
  from numRowsFor_not_NaN [OF this, of s] numRowsFor_not_NegInfinity [of "hi - lo" s] some
  obtain n where n: "numRowsFor (hi - lo) s = Finite n"
    and rows: "rows = map (newRow lo hi ((hi - lo) / n)) [0..<nat \<lceil>n\<rceil>]"
    by (auto simp add: createPriceLevelRows_def Let_def rows_loop_eq split: js_count.splits)
  from numRowsFor_Finite [OF n] lt have "0 < (hi - lo) / n" by simp
  then show ?thesis
    unfolding rows
    by (simp add: sorted_wrt_iff_nth_less priceLevel_newRow_mono)
qed

lemma distributeVolume_priceLevel:
  "map priceLevel (distributeVolume bars rows) = map priceLevel rows"
  unfolding distributeVolume_def
  by (induction bars arbitrary: rows) (simp_all add: addBarToRow_fields comp_def)

lemma calculateProfile_Inr:
  assumes "calculateProfile tc (Some (b # bs)) cfg = Some (Inr p)"
  shows "\<exists>rows0. createPriceLevelRows (profileLowOf b bs) (profileHighOf b bs) (mergeSettings tc cfg)
             = Some rows0 \<and>
           p_rows p = distributeVolume (b # bs) rows0 \<and>
           calculatePOC (Some (p_rows p)) = Inr (p_poc p) \<and>
           va_vah (calculateValueArea (p_rows p) (p_poc p) (vaPercentageOf (mergeSettings tc cfg)))
             = Some (p_vah p) \<and>
           va_val (calculateValueArea (p_rows p) (p_poc p) (vaPercentageOf (mergeSettings tc cfg)))
             = Some (p_val p) \<and>
           va_rows (calculateValueArea (p_rows p) (p_poc p) (vaPercentageOf (mergeSettings tc cfg)))
             = p_valueAreaRows p"
proof -
  let ?s = "mergeSettings tc cfg"
  let ?created = "createPriceLevelRows (profileLowOf b bs) (profileHighOf b bs) ?s"
  show ?thesis
  proof (cases ?created)
    case None
    with assms show ?thesis
      by (subst (asm) calculateProfile.simps) (simp add: Let_def)
  next
    case (Some rows0)
    let ?rows = "distributeVolume (b # bs) rows0"
    show ?thesis
    proof (cases "calculatePOC (Some ?rows)")
      case (Inl e)
      with assms Some show ?thesis
        by (subst (asm) calculateProfile.simps) (simp add: Let_def)
    next
      case (Inr pocRow)
      let ?va = "calculateValueArea ?rows pocRow (vaPercentageOf ?s)"
      let ?dev = "if developingOn ?s then map_option Some (calculateDeveloping tc (b # bs) ?s)
                  else Some None"
      have unfolded: "calculateProfile tc (Some (b # bs)) cfg =
          (case ?dev of
             None \<Rightarrow> None
           | Some dev \<Rightarrow>
               (case (va_vah ?va, va_val ?va) of
                  (Some vah, Some val) \<Rightarrow>
                    Some (Inr
                      \<lparr>p_rows = ?rows, p_poc = pocRow, p_vah = vah, p_val = val,
                       p_valueAreaRows = va_rows ?va,
                       profileHigh = profileHighOf b bs, profileLow = profileLowOf b bs,
                       developing = dev,
                       md_totalVolume = totalOfRows ?rows,
                       totalBars = length (b # bs),
                       priceRange = profileHighOf b bs - profileLowOf b bs,
                       rowCount = length ?rows\<rparr>)
                | _ \<Rightarrow> Some (Inl (TypeError ''priceLevel of undefined''))))"
        using Some Inr by (subst calculateProfile.simps) (simp add: Let_def)
      from assms [unfolded unfolded] obtain dev vah val where
        "va_vah ?va = Some vah" "va_val ?va = Some val"
        "p = \<lparr>p_rows = ?rows, p_poc = pocRow, p_vah = vah, p_val = val,
                       p_valueAreaRows = va_rows ?va,
                       profileHigh = profileHighOf b bs, profileLow = profileLowOf b bs,
                       developing = dev,
                       md_totalVolume = totalOfRows ?rows,
                       totalBars = length (b # bs),
                       priceRange = profileHighOf b bs - profileLowOf b bs,
                       rowCount = length ?rows\<rparr>"
        by (cases ?dev; cases "va_vah ?va"; cases "va_val ?va") auto
      with Some Inr show ?thesis by simp
    qed
  qed
qed

lemma calculatePOC_Inr_mem:
  assumes "calculatePOC (Some rows) = Inr poc"
  shows "poc \<in> set rows"
proof (cases rows)
  case Nil
  with assms show ?thesis by (simp add: calculatePOC_def)
next
  case (Cons r0 rest)
  with assms have "poc = foldl pickMax r0 rest"
    by (simp add: calculatePOC_Cons)
  with foldl_pickMax_mem [of r0 rest] Cons show ?thesis by simp
qed

lemma calculateProfile_rows:
  assumes "calculateProfile tc (Some (b # bs)) cfg = Some (Inr p)"
  shows "rows_wf (p_rows p)" and "p_poc p \<in> set (p_rows p)"
    and "totalOfRows (p_rows p) \<noteq> 0 \<Longrightarrow> sorted_wrt (<) (map priceLevel (p_rows p))"
proof -
  from calculateProfile_Inr [OF assms] obtain rows0 where
    rows0: "createPriceLevelRows (profileLowOf b bs) (profileHighOf b bs) (mergeSettings tc cfg)
             = Some rows0"
    and rows: "p_rows p = distributeVolume (b # bs) rows0"
    and poc: "calculatePOC (Some (p_rows p)) = Inr (p_poc p)"
    by blast
  show "rows_wf (p_rows p)"
    unfolding rows by (rule distributeVolume_wf [OF createPriceLevelRows_wf [OF rows0]])
  show "p_poc p \<in> set (p_rows p)"
    using poc by (rule calculatePOC_Inr_mem)
  show "sorted_wrt (<) (map priceLevel (p_rows p))" if nz: "totalOfRows (p_rows p) \<noteq> 0"
  proof -
    have "\<exists>x \<in> set (b # bs). bar_low x < bar_high x"
    proof (rule ccontr)
      assume "\<not> (\<exists>x \<in> set (b # bs). bar_low x < bar_high x)"
      then have "\<forall>x \<in> set (b # bs). \<not> bar_low x < bar_high x" by blast
      from distributeVolume_flat [OF this, of rows0] createPriceLevelRows_fresh [OF rows0] nz
      show False
        by (simp add: rows totalOfRows_sum)
    qed
    then obtain x where x: "x \<in> set (b # bs)" "bar_low x < bar_high x" by blast
    from profile_range [OF x(1)] x(2) have "profileLowOf b bs < profileHighOf b bs"
      by linarith
    from createPriceLevelRows_ascending [OF rows0 this] show ?thesis
      by (simp add: rows distributeVolume_priceLevel)
  qed
qed

lemma calculateProfile_valueArea:
  assumes "calculateProfile tc (Some (b # bs)) cfg = Some (Inr p)"
  shows "\<exists>lo hi. lo \<le> index (p_poc p) \<and> index (p_poc p) \<le> hi \<and> hi < length (p_rows p) \<and>
           set (p_valueAreaRows p) = {lo..hi} \<and>
           p_val p = p_rows p ! lo \<and> p_vah p = p_rows p ! hi"
proof -
  let ?v = "vaPercentageOf (mergeSettings tc cfg)"
  let ?va = "calculateValueArea (p_rows p) (p_poc p) ?v"
  from calculateProfile_Inr [OF assms] have
    va: "va_vah ?va = Some (p_vah p)" "va_val ?va = Some (p_val p)" "va_rows ?va = p_valueAreaRows p"
    by auto
  note rows = calculateProfile_rows [OF assms]
  show ?thesis
  proof (cases "totalOfRows (p_rows p) = 0")
    case True
    with va have "p_vah p = p_poc p" "p_val p = p_poc p" "p_valueAreaRows p = [index (p_poc p)]"
      by (simp_all add: calculateValueArea_zero)
    with indexOf_wf(2,3) [OF rows(1,2)] show ?thesis
      by (intro exI [of _ "index (p_poc p)"]) simp
  next
    case False
    from valueArea_interval [OF rows(1) rows(3) [OF False] rows(2), of ?v] va
    show ?thesis by auto
  qed
qed

lemma calculateProfile_totalVolume:
  assumes "calculateProfile tc (Some (b # bs)) cfg = Some (Inr p)"
  shows "totalOfRows (p_rows p)
           = sum_list (map bar_volume (filter (\<lambda>x. bar_low x < bar_high x) (b # bs)))"
    and "\<forall>x \<in> set (b # bs). bar_low x < bar_high x \<Longrightarrow>
           totalOfRows (p_rows p) = sum_list (map bar_volume (b # bs))"
proof -
  from calculateProfile_Inr [OF assms(1)] obtain rows0 where
    rows0: "createPriceLevelRows (profileLowOf b bs) (profileHighOf b bs) (mergeSettings tc cfg)
             = Some rows0"
    and rows: "p_rows p = distributeVolume (b # bs) rows0"
    by blast
  from profile_range [of _ b bs]
  have inside: "\<forall>x \<in> set (b # bs). profileLowOf b bs \<le> bar_low x \<and>
          bar_high x \<le> profileHighOf b bs"
    by blast
  from distributeVolume_total [OF rows0 inside]
  show "totalOfRows (p_rows p)
           = sum_list (map bar_volume (filter (\<lambda>x. bar_low x < bar_high x) (b # bs)))"
    by (simp only: rows)
  show "totalOfRows (p_rows p) = sum_list (map bar_volume (b # bs))"
    if "\<forall>x \<in> set (b # bs). bar_low x < bar_high x"
    using distributeVolume_total_all [OF rows0 inside that] by (simp only: rows)
qed

end
